theory Spec2Isabelle
  imports Main
begin

section \<open>Errors and numbers of the host language\<close>

text \<open>
  A thrown value is an object with an identity, a constructor (its type), a message and
  whatever further fields the thrower attached. \<open>Thrown\<close> stands for an error object
  that reaches the indexer from outside (the chain client, the database, a retried
  function); \<open>Created\<close> for an \<open>Error\<close> the indexer's own code constructs with
  \<open>new Error(message)\<close>. Equality of two \<open>js_error\<close> values is equality of all
  of these, identity included.
\<close>

datatype js_error =
    Thrown (ident: nat) (err_type: string) (message: string) (custom: "(string \<times> string) list")
  | Created string

text \<open>\<open>bigint.toString()\<close>: the base-10 digits, with a leading minus sign below zero.\<close>

text \<open>The digit of a number below ten; it is only used on such numbers.\<close>

definition digit_char :: "nat \<Rightarrow> char" where
  "digit_char d = ''0123456789'' ! d"

fun nat_toString :: "nat \<Rightarrow> string" where
  "nat_toString n = (if n < 10 then [digit_char n] else nat_toString (n div 10) @ [digit_char (n mod 10)])"

definition bigint_toString :: "int \<Rightarrow> string" where
  "bigint_toString i = (if i < 0 then CHR ''-'' # nat_toString (nat (- i)) else nat_toString (nat i))"

section \<open>lib/retry.ts (src/unnamed/part_001)\<close>

text \<open>
  \<open>RetryOptions\<close>: every field is optional. Numbers are modelled as integers
  (milliseconds and counts); fractional options are outside the model.
\<close>

record RetryOptions =
  maxRetries :: "int option"
  baseDelayMs :: "int option"
  maxDelayMs :: "int option"
  backoffMultiplier :: "int option"

record RequiredRetryOptions =
  r_maxRetries :: int
  r_baseDelayMs :: int
  r_maxDelayMs :: int
  r_backoffMultiplier :: int

definition DEFAULT_OPTIONS :: RequiredRetryOptions where
  "DEFAULT_OPTIONS = \<lparr> r_maxRetries = 3, r_baseDelayMs = 1000, r_maxDelayMs = 30000,
     r_backoffMultiplier = 2 \<rparr>"

definition no_options :: RetryOptions where
  "no_options = \<lparr> maxRetries = None, baseDelayMs = None, maxDelayMs = None,
     backoffMultiplier = None \<rparr>"

text \<open>\<open>{ ...DEFAULT_OPTIONS, ...options }\<close>: a field the caller gives overrides the default.\<close>

definition merge_options :: "RequiredRetryOptions \<Rightarrow> RetryOptions \<Rightarrow> RequiredRetryOptions" where
  "merge_options d options = \<lparr>
     r_maxRetries = (case maxRetries options of None \<Rightarrow> r_maxRetries d | Some v \<Rightarrow> v),
     r_baseDelayMs = (case baseDelayMs options of None \<Rightarrow> r_baseDelayMs d | Some v \<Rightarrow> v),
     r_maxDelayMs = (case maxDelayMs options of None \<Rightarrow> r_maxDelayMs d | Some v \<Rightarrow> v),
     r_backoffMultiplier =
       (case backoffMultiplier options of None \<Rightarrow> r_backoffMultiplier d | Some v \<Rightarrow> v) \<rparr>"

text \<open>
  The retried function is effectful: it is a transition on a state \<open>'s\<close> that either
  throws (\<open>Inl\<close>) or returns (\<open>Inr\<close>). The run of \<open>exponentialRetry\<close> is reported with
  the number of invocations of the function and the delays passed to \<open>sleep\<close>, in order.
\<close>

record ('s, 'a) retry_run =
  outcome :: "js_error + 'a"
  final :: 's
  calls :: nat
  slept :: "int list"

function retry_loop ::
  "RequiredRetryOptions \<Rightarrow> ('s \<Rightarrow> (js_error + 'a) \<times> 's) \<Rightarrow> int \<Rightarrow> int \<Rightarrow> js_error option
     \<Rightarrow> 's \<Rightarrow> nat \<Rightarrow> int list \<Rightarrow> ('s, 'a) retry_run" where
  "retry_loop opts fn attempt delay lastError s n ds =
     (if attempt \<le> r_maxRetries opts then
        (case fn s of
           (Inr v, s') \<Rightarrow> \<lparr> outcome = Inr v, final = s', calls = Suc n, slept = ds \<rparr>
         | (Inl error, s') \<Rightarrow>
             if attempt = r_maxRetries opts
             then \<lparr> outcome = Inl error, final = s', calls = Suc n, slept = ds \<rparr>
             else retry_loop opts fn (attempt + 1)
                    (min (delay * r_backoffMultiplier opts) (r_maxDelayMs opts))
                    (Some error) s' (Suc n) (ds @ [delay]))
      else \<lparr> outcome = Inl (case lastError of Some e \<Rightarrow> e | None \<Rightarrow> Created ''Retry failed''),
             final = s, calls = n, slept = ds \<rparr>)"
  by pat_completeness auto
termination
  by (relation "measure (\<lambda>(opts, fn, attempt, delay, lastError, s, n, ds).
        nat (r_maxRetries opts + 1 - attempt))") auto

definition exponentialRetry ::
  "('s \<Rightarrow> (js_error + 'a) \<times> 's) \<Rightarrow> RetryOptions \<Rightarrow> 's \<Rightarrow> ('s, 'a) retry_run" where
  "exponentialRetry fn options s =
     (let opts = merge_options DEFAULT_OPTIONS options
      in retry_loop opts fn 0 (r_baseDelayMs opts) None s 0 [])"

section \<open>types/events.ts (src/src/types/events.ts)\<close>

text \<open>
  A log record as the chain client hands it over (viem's \<open>Log\<close>). The fields that viem
  types as nullable are options. Block numbers are \<open>bigint\<close>, hence \<open>int\<close>.
\<close>

record Log =
  address :: string
  blockHash :: "string option"
  blockNumber :: "int option"
  data :: string
  logIndex :: "int option"
  transactionHash :: "string option"
  transactionIndex :: "int option"
  removed :: bool
  topics :: "string list"

text \<open>A \<open>Date\<close> is its number of milliseconds since the epoch.\<close>

type_synonym Date = int

record ERC20TransferData =
  t_from :: string
  t_to :: string
  t_value :: string
  t_tokenAddress :: string
  t_transactionHash :: string
  t_logIndex :: int
  t_blockNumber :: int
  t_blockTimestamp :: Date

record SwapData =
  s_poolAddress :: string
  s_sender :: string
  s_recipient :: string
  s_amount0In :: string
  s_amount1In :: string
  s_amount0Out :: string
  s_amount1Out :: string
  s_transactionHash :: string
  s_logIndex :: int
  s_blockNumber :: int
  s_blockTimestamp :: Date

datatype DecodedEvent =
    Erc20Transfer ERC20TransferData
  | Swap SwapData
  | Unknown Log

record IndexerState =
  lastBlockNumber :: int
  isIndexing :: bool
  lastError :: "string option"
  state_errorCount :: nat

section \<open>indexer/event-decoder.ts (src/src/indexer/event-decoder.ts)\<close>

text \<open>
  \<open>decodeEventLog\<close> belongs to the viem library and is a parameter of the model, one
  function for each of the three ABI constants of the decoder. Each takes the log's
  \<open>data\<close> and \<open>topics\<close> and either throws or returns the event name with the arguments
  that the ABI names: \<open>ERC20_TRANSFER_ABI\<close> (from, to, value), \<open>SWAP_ABI\<close> (sender,
  amount0In, amount1In, amount0Out, amount1Out, to) and \<open>SWAP_V3_ABI\<close> (sender,
  recipient, amount0, amount1, sqrtPriceX96, liquidity, tick).
\<close>

record TransferArgs =
  a_from :: string
  a_to :: string
  a_value :: int

record SwapArgs =
  a_sender :: string
  a_amount0In :: int
  a_amount1In :: int
  a_amount0Out :: int
  a_amount1Out :: int
  a_swap_to :: string

record SwapV3Args =
  a3_sender :: string
  a3_recipient :: string
  a3_amount0 :: int
  a3_amount1 :: int
  a3_sqrtPriceX96 :: int
  a3_liquidity :: int
  a3_tick :: int

record 'a decoded =
  eventName :: string
  args :: 'a

record viem =
  decodeEventLog_ERC20_TRANSFER_ABI :: "string \<Rightarrow> string list \<Rightarrow> js_error + TransferArgs decoded"
  decodeEventLog_SWAP_ABI :: "string \<Rightarrow> string list \<Rightarrow> js_error + SwapArgs decoded"
  decodeEventLog_SWAP_V3_ABI :: "string \<Rightarrow> string list \<Rightarrow> js_error + SwapV3Args decoded"

text \<open>\<open>x || d\<close> on a nullable string (the empty string is falsy too) and \<open>x ?? d\<close>.\<close>

definition or_string :: "string option \<Rightarrow> string \<Rightarrow> string" where
  "or_string x d = (case x of None \<Rightarrow> d | Some v \<Rightarrow> if v = [] then d else v)"

definition nullish :: "'a option \<Rightarrow> 'a \<Rightarrow> 'a" where
  "nullish x d = (case x of None \<Rightarrow> d | Some v \<Rightarrow> v)"

text \<open>
  Each \<open>tryDecode\<close> method is a \<open>try\<close> block whose \<open>catch\<close> is empty and falls through
  to \<open>return null\<close>: the body is written first, with the throw of \<open>decodeEventLog\<close> as
  \<open>Inl\<close>, and \<open>catch_null\<close> is the \<open>try\<close>/\<open>catch\<close> around it.
\<close>

definition catch_null :: "js_error + 'a option \<Rightarrow> 'a option" where
  "catch_null body = (case body of Inl _ \<Rightarrow> None | Inr r \<Rightarrow> r)"

definition tryDecodeERC20Transfer_body ::
  "viem \<Rightarrow> Log \<Rightarrow> Date \<Rightarrow> js_error + ERC20TransferData option" where
  "tryDecodeERC20Transfer_body v log blockTimestamp =
     (case decodeEventLog_ERC20_TRANSFER_ABI v (data log) (topics log) of
        Inl e \<Rightarrow> Inl e
      | Inr decoded \<Rightarrow>
          if eventName decoded = ''Transfer'' then
            Inr (Some \<lparr> t_from = a_from (args decoded),
                         t_to = a_to (args decoded),
                         t_value = bigint_toString (a_value (args decoded)),
                         t_tokenAddress = address log,
                         t_transactionHash = or_string (transactionHash log) [],
                         t_logIndex = nullish (logIndex log) 0,
                         t_blockNumber = nullish (blockNumber log) 0,
                         t_blockTimestamp = blockTimestamp \<rparr>)
          else Inr None)"

definition tryDecodeERC20Transfer :: "viem \<Rightarrow> Log \<Rightarrow> Date \<Rightarrow> ERC20TransferData option" where
  "tryDecodeERC20Transfer v log blockTimestamp =
     catch_null (tryDecodeERC20Transfer_body v log blockTimestamp)"

definition tryDecodeSwapV2_body :: "viem \<Rightarrow> Log \<Rightarrow> Date \<Rightarrow> js_error + SwapData option" where
  "tryDecodeSwapV2_body v log blockTimestamp =
     (case decodeEventLog_SWAP_ABI v (data log) (topics log) of
        Inl e \<Rightarrow> Inl e
      | Inr decoded \<Rightarrow>
          if eventName decoded = ''Swap'' then
            (let amount0In = a_amount0In (args decoded);
                 amount1In = a_amount1In (args decoded);
                 amount0Out = a_amount0Out (args decoded);
                 amount1Out = a_amount1Out (args decoded)
             in Inr (Some \<lparr> s_poolAddress = address log,
                         s_sender = a_sender (args decoded),
                         s_recipient = a_swap_to (args decoded),
                         s_amount0In = (if amount0In > 0 then bigint_toString amount0In else ''0''),
                         s_amount1In = (if amount1In > 0 then bigint_toString amount1In else ''0''),
                         s_amount0Out = (if amount0Out > 0 then bigint_toString amount0Out else ''0''),
                         s_amount1Out = (if amount1Out > 0 then bigint_toString amount1Out else ''0''),
                         s_transactionHash = or_string (transactionHash log) [],
                         s_logIndex = nullish (logIndex log) 0,
                         s_blockNumber = nullish (blockNumber log) 0,
                         s_blockTimestamp = blockTimestamp \<rparr>))
          else Inr None)"

definition tryDecodeSwapV2 :: "viem \<Rightarrow> Log \<Rightarrow> Date \<Rightarrow> SwapData option" where
  "tryDecodeSwapV2 v log blockTimestamp = catch_null (tryDecodeSwapV2_body v log blockTimestamp)"

definition tryDecodeSwapV3_body :: "viem \<Rightarrow> Log \<Rightarrow> Date \<Rightarrow> js_error + SwapData option" where
  "tryDecodeSwapV3_body v log blockTimestamp =
     (case decodeEventLog_SWAP_V3_ABI v (data log) (topics log) of
        Inl e \<Rightarrow> Inl e
      | Inr decoded \<Rightarrow>
          if eventName decoded = ''Swap'' then
            (let amount0 = a3_amount0 (args decoded);
                 amount1 = a3_amount1 (args decoded)
             in Inr (Some \<lparr> s_poolAddress = address log,
                         s_sender = a3_sender (args decoded),
                         s_recipient = a3_recipient (args decoded),
                         s_amount0In = (if amount0 < 0 then bigint_toString (- amount0) else ''0''),
                         s_amount1In = (if amount1 < 0 then bigint_toString (- amount1) else ''0''),
                         s_amount0Out = (if amount0 > 0 then bigint_toString amount0 else ''0''),
                         s_amount1Out = (if amount1 > 0 then bigint_toString amount1 else ''0''),
                         s_transactionHash = or_string (transactionHash log) [],
                         s_logIndex = nullish (logIndex log) 0,
                         s_blockNumber = nullish (blockNumber log) 0,
                         s_blockTimestamp = blockTimestamp \<rparr>))
          else Inr None)"

definition tryDecodeSwapV3 :: "viem \<Rightarrow> Log \<Rightarrow> Date \<Rightarrow> SwapData option" where
  "tryDecodeSwapV3 v log blockTimestamp = catch_null (tryDecodeSwapV3_body v log blockTimestamp)"

definition decode :: "viem \<Rightarrow> Log \<Rightarrow> Date \<Rightarrow> DecodedEvent" where
  "decode v log blockTimestamp =
     (case tryDecodeERC20Transfer v log blockTimestamp of
        Some erc20Transfer \<Rightarrow> Erc20Transfer erc20Transfer
      | None \<Rightarrow>
          (case tryDecodeSwapV2 v log blockTimestamp of
             Some swap \<Rightarrow> Swap swap
           | None \<Rightarrow>
               (case tryDecodeSwapV3 v log blockTimestamp of
                  Some swapV3 \<Rightarrow> Swap swapV3
                | None \<Rightarrow> Unknown log)))"

section \<open>indexer/storage.ts (second file of src/src/config/env.ts)\<close>

text \<open>
  The three tables the indexer writes. A typed row holds exactly the fields of the
  decoded data, so the typed tables are lists of \<open>ERC20TransferData\<close> and \<open>SwapData\<close>.
\<close>

record EventLogRow =
  row_blockNumber :: int
  row_blockTimestamp :: Date
  row_transactionHash :: string
  row_logIndex :: int
  row_address :: string
  row_topics :: "string list"
  row_data :: string

record Database =
  eventLog :: "EventLogRow list"
  eRC20Transfer :: "ERC20TransferData list"
  swap :: "SwapData list"

datatype db_write =
    EventLogCreate EventLogRow
  | ERC20TransferCreate ERC20TransferData
  | SwapCreate SwapData

text \<open>
  Prisma is a library: what it does is a parameter. A write inside a transaction, the start
  of a transaction and its commit may each be rejected with an error. \<open>$transaction\<close>
  is the interactive transaction of Prisma: the callback works on the transaction's own
  view; if the callback throws, or the commit is rejected, nothing of it reaches the
  committed database and \<open>$transaction\<close> rejects with that error. The store counts the
  calls of \<open>$transaction\<close>.
\<close>

record prisma =
  rejects_begin :: "Database \<Rightarrow> js_error option"
  rejects_write :: "db_write \<Rightarrow> Database \<Rightarrow> js_error option"
  rejects_commit :: "Database \<Rightarrow> js_error option"

record Store =
  committed :: Database
  transactions :: nat

fun apply_write :: "db_write \<Rightarrow> Database \<Rightarrow> Database" where
  "apply_write (EventLogCreate r) tx = tx\<lparr> eventLog := eventLog tx @ [r] \<rparr>"
| "apply_write (ERC20TransferCreate r) tx = tx\<lparr> eRC20Transfer := eRC20Transfer tx @ [r] \<rparr>"
| "apply_write (SwapCreate r) tx = tx\<lparr> swap := swap tx @ [r] \<rparr>"

definition tx_create :: "prisma \<Rightarrow> db_write \<Rightarrow> Database \<Rightarrow> js_error + Database" where
  "tx_create px wr tx =
     (case rejects_write px wr tx of Some e \<Rightarrow> Inl e | None \<Rightarrow> Inr (apply_write wr tx))"

definition transaction ::
  "prisma \<Rightarrow> (Database \<Rightarrow> js_error + Database) \<Rightarrow> Store \<Rightarrow> (js_error + unit) \<times> Store" where
  "transaction px callback st =
     (let st1 = st\<lparr> transactions := Suc (transactions st) \<rparr>
      in case rejects_begin px (committed st) of
           Some e \<Rightarrow> (Inl e, st1)
         | None \<Rightarrow>
             (case callback (committed st) of
                Inl e \<Rightarrow> (Inl e, st1)
              | Inr tx \<Rightarrow>
                  (case rejects_commit px tx of
                     Some e \<Rightarrow> (Inl e, st1)
                   | None \<Rightarrow> (Inr (), st1\<lparr> committed := tx \<rparr>))))"

text \<open>\<open>n || 0\<close> on a number and on a nullable number.\<close>

definition or_number :: "int option \<Rightarrow> int \<Rightarrow> int" where
  "or_number x d = (case x of None \<Rightarrow> d | Some v \<Rightarrow> if v = 0 then d else v)"

definition saveERC20Transfer :: "prisma \<Rightarrow> ERC20TransferData \<Rightarrow> Database \<Rightarrow> js_error + Database" where
  "saveERC20Transfer px d tx =
     tx_create px (ERC20TransferCreate
       \<lparr> t_from = t_from d, t_to = t_to d, t_value = t_value d,
         t_tokenAddress = t_tokenAddress d, t_transactionHash = t_transactionHash d,
         t_logIndex = t_logIndex d, t_blockNumber = t_blockNumber d,
         t_blockTimestamp = t_blockTimestamp d \<rparr>) tx"

definition saveSwap :: "prisma \<Rightarrow> SwapData \<Rightarrow> Database \<Rightarrow> js_error + Database" where
  "saveSwap px d tx =
     tx_create px (SwapCreate
       \<lparr> s_poolAddress = s_poolAddress d, s_sender = s_sender d, s_recipient = s_recipient d,
         s_amount0In = s_amount0In d, s_amount1In = s_amount1In d,
         s_amount0Out = s_amount0Out d, s_amount1Out = s_amount1Out d,
         s_transactionHash = s_transactionHash d, s_logIndex = s_logIndex d,
         s_blockNumber = s_blockNumber d, s_blockTimestamp = s_blockTimestamp d \<rparr>) tx"

text \<open>The audit row that the loop of \<open>saveBlockEvents\<close> writes for one event.\<close>

fun audit_row :: "int \<Rightarrow> Date \<Rightarrow> DecodedEvent \<Rightarrow> EventLogRow" where
  "audit_row blockNo blockTimestamp (Erc20Transfer d) =
     \<lparr> row_blockNumber = blockNo, row_blockTimestamp = blockTimestamp,
       row_transactionHash = or_string (Some (t_transactionHash d)) [],
       row_logIndex = or_number (Some (t_logIndex d)) 0,
       row_address = or_string (Some (t_tokenAddress d)) ''0x'',
       row_topics = [], row_data = ''0x'' \<rparr>"
| "audit_row blockNo blockTimestamp (Swap d) =
     \<lparr> row_blockNumber = blockNo, row_blockTimestamp = blockTimestamp,
       row_transactionHash = or_string (Some (s_transactionHash d)) [],
       row_logIndex = or_number (Some (s_logIndex d)) 0,
       row_address = or_string (Some (s_poolAddress d)) ''0x'',
       row_topics = [], row_data = ''0x'' \<rparr>"
| "audit_row blockNo blockTimestamp (Unknown log) =
     \<lparr> row_blockNumber = blockNo, row_blockTimestamp = blockTimestamp,
       row_transactionHash = or_string (transactionHash log) [],
       row_logIndex = or_number (logIndex log) 0,
       row_address = or_string (Some (address log)) ''0x'',
       row_topics = topics log, row_data = or_string (Some (data log)) ''0x'' \<rparr>"

text \<open>One pass of the loop body, then the loop over the events, inside the transaction.\<close>

fun save_event :: "prisma \<Rightarrow> int \<Rightarrow> Date \<Rightarrow> DecodedEvent \<Rightarrow> Database \<Rightarrow> js_error + Database" where
  "save_event px blockNo blockTimestamp (Erc20Transfer d) tx =
     (case tx_create px (EventLogCreate (audit_row blockNo blockTimestamp (Erc20Transfer d))) tx of
        Inl e \<Rightarrow> Inl e
      | Inr tx1 \<Rightarrow> saveERC20Transfer px d tx1)"
| "save_event px blockNo blockTimestamp (Swap d) tx =
     (case tx_create px (EventLogCreate (audit_row blockNo blockTimestamp (Swap d))) tx of
        Inl e \<Rightarrow> Inl e
      | Inr tx1 \<Rightarrow> saveSwap px d tx1)"
| "save_event px blockNo blockTimestamp (Unknown log) tx =
     tx_create px (EventLogCreate (audit_row blockNo blockTimestamp (Unknown log))) tx"

fun save_events :: "prisma \<Rightarrow> int \<Rightarrow> Date \<Rightarrow> DecodedEvent list \<Rightarrow> Database \<Rightarrow> js_error + Database" where
  "save_events px blockNo blockTimestamp [] tx = Inr tx"
| "save_events px blockNo blockTimestamp (event # events) tx =
     (case save_event px blockNo blockTimestamp event tx of
        Inl e \<Rightarrow> Inl e
      | Inr tx1 \<Rightarrow> save_events px blockNo blockTimestamp events tx1)"

text \<open>The outer \<open>try\<close>/\<open>catch\<close> logs and throws the error it caught.\<close>

definition saveBlockEvents ::
  "prisma \<Rightarrow> int \<Rightarrow> Date \<Rightarrow> DecodedEvent list \<Rightarrow> Store \<Rightarrow> (js_error + unit) \<times> Store" where
  "saveBlockEvents px blockNo blockTimestamp events st =
     (case transaction px (save_events px blockNo blockTimestamp events) st of
        (Inl error, st1) \<Rightarrow> (Inl error, st1)
      | (Inr u, st1) \<Rightarrow> (Inr u, st1))"

text \<open>
  \<open>getStats\<close> reads the committed tables: the three counts and the highest block number
  of the audit rows, or zero when there is none.
\<close>

record Stats =
  totalEvents :: int
  totalTransfers :: int
  totalSwaps :: int
  stats_latestBlock :: int

definition getStats :: "Store \<Rightarrow> Stats" where
  "getStats st =
     \<lparr> totalEvents = int (length (eventLog (committed st))),
       totalTransfers = int (length (eRC20Transfer (committed st))),
       totalSwaps = int (length (swap (committed st))),
       stats_latestBlock =
         (case eventLog (committed st) of
            [] \<Rightarrow> 0
          | r # rs \<Rightarrow> fold max (map row_blockNumber rs) (row_blockNumber r)) \<rparr>"

text \<open>The rows that a whole batch adds to each table.\<close>

fun transfers_of :: "DecodedEvent list \<Rightarrow> ERC20TransferData list" where
  "transfers_of [] = []"
| "transfers_of (Erc20Transfer d # es) = d # transfers_of es"
| "transfers_of (e # es) = transfers_of es"

fun swaps_of :: "DecodedEvent list \<Rightarrow> SwapData list" where
  "swaps_of [] = []"
| "swaps_of (Swap d # es) = d # swaps_of es"
| "swaps_of (e # es) = swaps_of es"

definition with_batch :: "int \<Rightarrow> Date \<Rightarrow> DecodedEvent list \<Rightarrow> Database \<Rightarrow> Database" where
  "with_batch blockNo blockTimestamp events db =
     \<lparr> eventLog = eventLog db @ map (audit_row blockNo blockTimestamp) events,
       eRC20Transfer = eRC20Transfer db @ transfers_of events,
       swap = swap db @ swaps_of events \<rparr>"

section \<open>indexer/index.ts, the event emitter (src/unnamed/part_003)\<close>

text \<open>
  A listener is a callback; what the \<open>Set\<close> compares is its identity, a number here.
  The \<open>Set\<close> of listeners follows the language definition: its data is a list of
  entries in insertion order; \<open>add\<close> of a value that is present changes nothing and
  otherwise appends an entry; \<open>delete\<close> empties the value's entry (\<open>None\<close>) and leaves
  the list as long as it was; \<open>for ... of\<close> walks the list by index, skips the emptied
  entries, and reads the length of the list again at every step.
\<close>

type_synonym listener = nat

fun Set_add :: "'a \<Rightarrow> 'a option list \<Rightarrow> 'a option list" where
  "Set_add v entries = (if Some v \<in> set entries then entries else entries @ [Some v])"

fun Set_delete :: "'a \<Rightarrow> 'a option list \<Rightarrow> 'a option list" where
  "Set_delete v [] = []"
| "Set_delete v (e # entries) = (if e = Some v then None # entries else e # Set_delete v entries)"

text \<open>The values of a \<open>Set\<close>, in iteration order.\<close>

fun Set_values :: "'a option list \<Rightarrow> 'a list" where
  "Set_values [] = []"
| "Set_values (None # entries) = Set_values entries"
| "Set_values (Some v # entries) = v # Set_values entries"

text \<open>
  What a listener does when it is called is a parameter: the calls it makes on the
  emitter (\<open>subscribe\<close> of a callback, or a cancel handle), and whether it throws
  afterwards. A listener that calls \<open>emit\<close> itself is outside the model.
\<close>

datatype bus_op = Subscribe listener | Cancel listener

record listener_run =
  ops :: "bus_op list"
  throws :: bool

type_synonym behaviour = "listener \<Rightarrow> DecodedEvent \<Rightarrow> listener_run"

text \<open>
  The emitter holds the \<open>Set\<close>. The model also keeps, for observation, the events given
  to \<open>emit\<close>, the calls of listeners in the order they were made, and the number of
  listener errors that \<open>emit\<close> caught and logged.
\<close>

record IndexerEventEmitter =
  listeners :: "listener option list"
  published :: "DecodedEvent list"
  delivered :: "(listener \<times> DecodedEvent) list"
  logged :: nat

definition new_emitter :: IndexerEventEmitter where
  "new_emitter = \<lparr> listeners = [], published = [], delivered = [], logged = 0 \<rparr>"

definition subscribe :: "listener \<Rightarrow> IndexerEventEmitter \<Rightarrow> IndexerEventEmitter" where
  "subscribe callback em = em\<lparr> listeners := Set_add callback (listeners em) \<rparr>"

text \<open>The handle that \<open>subscribe callback\<close> returns: \<open>() => this.listeners.delete(callback)\<close>.\<close>

definition cancel_handle :: "listener \<Rightarrow> IndexerEventEmitter \<Rightarrow> IndexerEventEmitter" where
  "cancel_handle callback em = em\<lparr> listeners := Set_delete callback (listeners em) \<rparr>"

fun apply_op :: "bus_op \<Rightarrow> IndexerEventEmitter \<Rightarrow> IndexerEventEmitter" where
  "apply_op (Subscribe l) em = subscribe l em"
| "apply_op (Cancel l) em = cancel_handle l em"

definition call_listener ::
  "behaviour \<Rightarrow> listener \<Rightarrow> DecodedEvent \<Rightarrow> IndexerEventEmitter \<Rightarrow> IndexerEventEmitter" where
  "call_listener beh l event em =
     (let em1 = fold apply_op (ops (beh l event)) (em\<lparr> delivered := delivered em @ [(l, event)] \<rparr>)
      in if throws (beh l event) then em1\<lparr> logged := Suc (logged em1) \<rparr> else em1)"

text \<open>
  The loop of \<open>emit\<close> from entry \<open>index\<close> on. Listeners that keep adding entries keep
  the loop going, so it runs on fuel: \<open>None\<close> is a loop that has not ended.
\<close>

fun emit_loop ::
  "nat \<Rightarrow> behaviour \<Rightarrow> DecodedEvent \<Rightarrow> nat \<Rightarrow> IndexerEventEmitter \<Rightarrow> IndexerEventEmitter option" where
  "emit_loop 0 beh event index em =
     (if index < length (listeners em) then None else Some em)"
| "emit_loop (Suc fuel) beh event index em =
     (if index < length (listeners em) then
        (case listeners em ! index of
           None \<Rightarrow> emit_loop fuel beh event (Suc index) em
         | Some l \<Rightarrow> emit_loop fuel beh event (Suc index) (call_listener beh l event em))
      else Some em)"

definition emit ::
  "nat \<Rightarrow> behaviour \<Rightarrow> DecodedEvent \<Rightarrow> IndexerEventEmitter \<Rightarrow> IndexerEventEmitter option" where
  "emit fuel beh event em = emit_loop fuel beh event 0 (em\<lparr> published := published em @ [event] \<rparr>)"

text \<open>A listener that is \<open>quiet\<close> makes no call on the emitter.\<close>

definition quiet :: "behaviour \<Rightarrow> bool" where
  "quiet beh = (\<forall>l event. ops (beh l event) = [])"

section \<open>indexer/index.ts, the orchestrator (src/unnamed/part_003)\<close>

text \<open>
  The chain client (viem's \<open>PublicClient\<close>) is a parameter: each call is a transition on
  the state \<open>'w\<close> of the world outside that throws or returns. \<open>getBlock\<close> returns the
  block's timestamp in seconds, if there is a block.
\<close>

record 'w PublicClient =
  getBlockNumber :: "'w \<Rightarrow> (js_error + int) \<times> 'w"
  getLogs :: "int \<Rightarrow> int \<Rightarrow> 'w \<Rightarrow> (js_error + Log list) \<times> 'w"
  getBlock :: "int \<Rightarrow> 'w \<Rightarrow> (js_error + int option) \<times> 'w"

record 'w OnchainIndexer =
  state :: IndexerState
  storage :: Store
  eventEmitter :: IndexerEventEmitter
  chain :: 'w

record 'w environment =
  env_client :: "'w PublicClient"
  env_viem :: viem
  env_prisma :: prisma
  env_listeners :: behaviour
  env_fuel :: nat

text \<open>The loop \<open>for (const event of decodedEvents) this.eventEmitter.emit(event)\<close>.\<close>

fun emit_all ::
  "nat \<Rightarrow> behaviour \<Rightarrow> DecodedEvent list \<Rightarrow> IndexerEventEmitter \<Rightarrow> IndexerEventEmitter option" where
  "emit_all fuel beh [] em = Some em"
| "emit_all fuel beh (event # events) em =
     (case emit fuel beh event em of
        None \<Rightarrow> None
      | Some em1 \<Rightarrow> emit_all fuel beh events em1)"

text \<open>
  The \<open>try\<close> block of \<open>processBlock\<close>, then the method with its \<open>catch\<close>, which counts the
  error and throws it again. \<open>None\<close> is a call in which an \<open>emit\<close> has not ended.
\<close>

definition processBlock_try ::
  "'w environment \<Rightarrow> int \<Rightarrow> Log list \<Rightarrow> 'w OnchainIndexer \<Rightarrow> ((js_error + unit) \<times> 'w OnchainIndexer) option" where
  "processBlock_try env blockNo logs ix =
     (case getBlock (env_client env) blockNo (chain ix) of
        (Inl e, w1) \<Rightarrow> Some (Inl e, ix\<lparr> chain := w1 \<rparr>)
      | (Inr block, w1) \<Rightarrow>
          (let blockTimestamp = or_number block 0 * 1000;
               decodedEvents = map (\<lambda>log. decode (env_viem env) log blockTimestamp) logs
           in case saveBlockEvents (env_prisma env) blockNo blockTimestamp decodedEvents (storage ix) of
                (Inl e, st1) \<Rightarrow> Some (Inl e, ix\<lparr> storage := st1, chain := w1 \<rparr>)
              | (Inr u, st1) \<Rightarrow>
                  (case emit_all (env_fuel env) (env_listeners env) decodedEvents (eventEmitter ix) of
                     None \<Rightarrow> None
                   | Some em1 \<Rightarrow>
                       Some (Inr (), ix\<lparr> state := (state ix)\<lparr> lastBlockNumber := blockNo \<rparr>,
                                         storage := st1, eventEmitter := em1, chain := w1 \<rparr>))))"

definition processBlock ::
  "'w environment \<Rightarrow> int \<Rightarrow> Log list \<Rightarrow> 'w OnchainIndexer \<Rightarrow> ((js_error + unit) \<times> 'w OnchainIndexer) option" where
  "processBlock env blockNo logs ix =
     (case processBlock_try env blockNo logs ix of
        None \<Rightarrow> None
      | Some (Inl error, ix1) \<Rightarrow>
          Some (Inl error, ix1\<lparr> state := (state ix1)\<lparr> state_errorCount := Suc (state_errorCount (state ix1)) \<rparr> \<rparr>)
      | Some (Inr u, ix1) \<Rightarrow> Some (Inr u, ix1))"

section \<open>indexer/block-poller.ts (third file of src/src/config/env.ts)\<close>

record BlockPoller =
  currentBlock :: int
  pollInterval :: int
  isRunning :: bool
  errorCount :: nat

definition new_BlockPoller :: "int \<Rightarrow> int \<Rightarrow> BlockPoller" where
  "new_BlockPoller startBlock interval =
     \<lparr> currentBlock = startBlock, pollInterval = interval, isRunning = False, errorCount = 0 \<rparr>"

definition getCurrentBlock :: "BlockPoller \<Rightarrow> int" where
  "getCurrentBlock p = currentBlock p"

definition getErrorCount :: "BlockPoller \<Rightarrow> nat" where
  "getErrorCount p = errorCount p"

definition stop :: "BlockPoller \<Rightarrow> BlockPoller" where
  "stop p = p\<lparr> isRunning := False \<rparr>"

text \<open>
  The callback is a parameter. It is called with the block number and the block's logs;
  it may read the poller through the public getters, so the model hands it the poller as
  it is at the call.
\<close>

type_synonym 'w BlockCallback =
  "BlockPoller \<Rightarrow> int option \<Rightarrow> Log list \<Rightarrow> 'w \<Rightarrow> (js_error + unit) \<times> 'w"

definition BATCH_SIZE :: int where
  "BATCH_SIZE = 100"

text \<open>\<open>new Set(xs)\<close>, iterated: the distinct values in the order of their first occurrence.\<close>

definition new_Set :: "'a list \<Rightarrow> 'a list" where
  "new_Set xs = Set_values (fold Set_add xs [])"

text \<open>The inner loop: one call of the callback for each block number of the batch.\<close>

fun block_loop ::
  "'w BlockCallback \<Rightarrow> BlockPoller \<Rightarrow> Log list \<Rightarrow> int option list \<Rightarrow> 'w \<Rightarrow> (js_error + unit) \<times> 'w" where
  "block_loop callback p logs [] w = (Inr (), w)"
| "block_loop callback p logs (blockNo # blockNumbers) w =
     (let blockLogs = filter (\<lambda>log. blockNumber log = blockNo) logs
      in case callback p blockNo blockLogs w of
           (Inl e, w1) \<Rightarrow> (Inl e, w1)
         | (Inr u, w1) \<Rightarrow> block_loop callback p logs blockNumbers w1)"

text \<open>The loop over the batches, from \<open>block\<close> to \<open>endBlock\<close> in steps of \<open>BATCH_SIZE\<close>.\<close>

function batch_loop ::
  "'w PublicClient \<Rightarrow> 'w BlockCallback \<Rightarrow> BlockPoller \<Rightarrow> int \<Rightarrow> int \<Rightarrow> 'w \<Rightarrow> (js_error + unit) \<times> 'w" where
  "batch_loop client callback p block endBlock w =
     (if block \<le> endBlock then
        (let batchEnd = (if block + BATCH_SIZE - 1 > endBlock then endBlock else block + BATCH_SIZE - 1)
         in case getLogs client block batchEnd w of
              (Inl e, w1) \<Rightarrow> (Inl e, w1)
            | (Inr logs, w1) \<Rightarrow>
                (case block_loop callback p logs (new_Set (map blockNumber logs)) w1 of
                   (Inl e, w2) \<Rightarrow> (Inl e, w2)
                 | (Inr u, w2) \<Rightarrow> batch_loop client callback p (block + BATCH_SIZE) endBlock w2))
      else (Inr (), w))"
  by pat_completeness auto
termination
  by (relation "measure (\<lambda>(client, callback, p, block, endBlock, w). nat (endBlock + 1 - block))")
     (auto simp: BATCH_SIZE_def)

declare batch_loop.simps [simp del]

text \<open>The function that \<open>pollBlocks\<close> hands to \<open>exponentialRetry\<close>: one attempt at a cycle.\<close>

definition pollBlocks_attempt ::
  "'w PublicClient \<Rightarrow> 'w BlockCallback \<Rightarrow> BlockPoller \<times> 'w \<Rightarrow> (js_error + unit) \<times> (BlockPoller \<times> 'w)" where
  "pollBlocks_attempt client callback s =
     (case s of (p, w) \<Rightarrow>
        (case getBlockNumber client w of
           (Inl e, w1) \<Rightarrow> (Inl e, (p, w1))
         | (Inr latestBlock, w1) \<Rightarrow>
             if latestBlock < currentBlock p then (Inr (), (p, w1))
             else
               (let endBlock = latestBlock
                in case batch_loop client callback p (currentBlock p) endBlock w1 of
                     (Inl e, w2) \<Rightarrow> (Inl e, (p, w2))
                   | (Inr u, w2) \<Rightarrow> (Inr (), (p\<lparr> currentBlock := endBlock + 1 \<rparr>, w2)))))"

definition pollBlocks_options :: RetryOptions where
  "pollBlocks_options = no_options\<lparr> maxRetries := Some 3, baseDelayMs := Some 1000 \<rparr>"

definition pollBlocks ::
  "'w PublicClient \<Rightarrow> 'w BlockCallback \<Rightarrow> BlockPoller \<times> 'w \<Rightarrow> (BlockPoller \<times> 'w, unit) retry_run" where
  "pollBlocks client callback s =
     exponentialRetry (pollBlocks_attempt client callback) pollBlocks_options s"

text \<open>
  The loop of \<open>start\<close>. \<open>stop()\<close> is called from outside while the loop awaits; it only
  clears \<open>isRunning\<close>, which the loop reads at the top of a pass. The parameter \<open>sleep\<close>
  is the wait between two cycles: it moves the world on and tells whether \<open>stop()\<close> was
  called during the pass. The loop has no bound of its own, so it runs on fuel, one unit
  for a pass: \<open>Polling\<close> is a loop that has not ended, \<open>Rejected\<close> a loop left by
  \<open>throw error\<close>, \<open>Resolved\<close> a loop left because \<open>isRunning\<close> was false.
\<close>

datatype start_result = Rejected js_error | Resolved | Polling

text \<open>
  One pass of the loop body: the cycle inside \<open>try\<close>, the \<open>catch\<close>, and the wait. The first
  component is the error that the pass throws out of the loop, if it does.
\<close>

definition start_pass ::
  "'w PublicClient \<Rightarrow> 'w BlockCallback \<Rightarrow> (int \<Rightarrow> 'w \<Rightarrow> bool \<times> 'w) \<Rightarrow> BlockPoller \<times> 'w
     \<Rightarrow> js_error option \<times> (BlockPoller \<times> 'w)" where
  "start_pass client callback sleep s =
     (let run = pollBlocks client callback s;
          p1 = fst (final run);
          w1 = snd (final run)
      in case outcome run of
           Inr u \<Rightarrow>
             (let p2 = p1\<lparr> errorCount := 0 \<rparr>;
                  (stopped, w2) = sleep (pollInterval p2) w1
              in (None, (if stopped then stop p2 else p2, w2)))
         | Inl error \<Rightarrow>
             (let p2 = p1\<lparr> errorCount := Suc (errorCount p1) \<rparr>
              in if errorCount p2 > 10 then (Some error, (p2\<lparr> isRunning := False \<rparr>, w1))
                 else
                   (let (stopped, w2) = sleep (pollInterval p2) w1
                    in (None, (if stopped then stop p2 else p2, w2)))))"

fun start_loop ::
  "nat \<Rightarrow> 'w PublicClient \<Rightarrow> 'w BlockCallback \<Rightarrow> (int \<Rightarrow> 'w \<Rightarrow> bool \<times> 'w) \<Rightarrow> BlockPoller \<times> 'w
     \<Rightarrow> start_result \<times> (BlockPoller \<times> 'w)" where
  "start_loop 0 client callback sleep s =
     (if isRunning (fst s) then (Polling, s) else (Resolved, s))"
| "start_loop (Suc fuel) client callback sleep s =
     (if isRunning (fst s) then
        (case start_pass client callback sleep s of
           (Some error, s1) \<Rightarrow> (Rejected error, s1)
         | (None, s1) \<Rightarrow> start_loop fuel client callback sleep s1)
      else (Resolved, s))"

definition start ::
  "nat \<Rightarrow> 'w PublicClient \<Rightarrow> 'w BlockCallback \<Rightarrow> (int \<Rightarrow> 'w \<Rightarrow> bool \<times> 'w) \<Rightarrow> BlockPoller \<times> 'w
     \<Rightarrow> start_result \<times> (BlockPoller \<times> 'w)" where
  "start fuel client callback sleep s =
     (if isRunning (fst s) then (Resolved, s)
      else start_loop fuel client callback sleep ((fst s)\<lparr> isRunning := True \<rparr>, snd s))"

section \<open>Notions used to state the properties\<close>

subsection \<open>Retry\<close>

text \<open>
  The delays of a run of the retry loop that starts with \<open>delay\<close> and sleeps \<open>k\<close> times;
  a function that throws at every call; the state after \<open>k\<close> calls of a function.
\<close>

fun delays_from :: "RequiredRetryOptions \<Rightarrow> int \<Rightarrow> nat \<Rightarrow> int list" where
  "delays_from opts delay 0 = []"
| "delays_from opts delay (Suc k) =
     delay # delays_from opts (min (delay * r_backoffMultiplier opts) (r_maxDelayMs opts)) k"

definition always_fails :: "('s \<Rightarrow> (js_error + 'a) \<times> 's) \<Rightarrow> bool" where
  "always_fails fn = (\<forall>s. isl (fst (fn s)))"

fun after_calls :: "('s \<Rightarrow> (js_error + 'a) \<times> 's) \<Rightarrow> nat \<Rightarrow> 's \<Rightarrow> 's" where
  "after_calls fn 0 s = s"
| "after_calls fn (Suc k) s = after_calls fn k (snd (fn s))"

subsection \<open>Decoder\<close>

text \<open>
  A log matches a schema when \<open>decodeEventLog\<close> with the schema's ABI returns, and returns
  the schema's event name. The value of a string of decimal digits.
\<close>

definition matches_Transfer :: "viem \<Rightarrow> Log \<Rightarrow> bool" where
  "matches_Transfer v log =
     (case decodeEventLog_ERC20_TRANSFER_ABI v (data log) (topics log) of
        Inl _ \<Rightarrow> False | Inr d \<Rightarrow> eventName d = ''Transfer'')"

definition matches_SwapV2 :: "viem \<Rightarrow> Log \<Rightarrow> bool" where
  "matches_SwapV2 v log =
     (case decodeEventLog_SWAP_ABI v (data log) (topics log) of
        Inl _ \<Rightarrow> False | Inr d \<Rightarrow> eventName d = ''Swap'')"

definition matches_SwapV3 :: "viem \<Rightarrow> Log \<Rightarrow> bool" where
  "matches_SwapV3 v log =
     (case decodeEventLog_SWAP_V3_ABI v (data log) (topics log) of
        Inl _ \<Rightarrow> False | Inr d \<Rightarrow> eventName d = ''Swap'')"

definition decimal_value :: "string \<Rightarrow> nat" where
  "decimal_value s = foldl (\<lambda>acc c. 10 * acc + (of_char c - 48)) 0 s"

subsection \<open>Emitter\<close>

text \<open>
  The listeners that are registered, in the order of their registration; an emitter whose
  \<open>Set\<close> holds no value twice, as every \<open>Set\<close> built by \<open>add\<close> and \<open>delete\<close> does; the
  number of listeners of a list that throw on an event.
\<close>

definition registered :: "IndexerEventEmitter \<Rightarrow> listener list" where
  "registered em = Set_values (listeners em)"

definition well_formed :: "IndexerEventEmitter \<Rightarrow> bool" where
  "well_formed em = distinct (registered em)"

definition throwing :: "behaviour \<Rightarrow> DecodedEvent \<Rightarrow> listener list \<Rightarrow> nat" where
  "throwing beh event ls = length (filter (\<lambda>l. throws (beh l event)) ls)"

subsection \<open>Orchestrator\<close>

text \<open>The events that \<open>processBlock\<close> decodes from the logs of a block with a given header.\<close>

definition decoded_block :: "'w environment \<Rightarrow> int option \<Rightarrow> Log list \<Rightarrow> DecodedEvent list" where
  "decoded_block env block logs =
     map (\<lambda>log. decode (env_viem env) log (or_number block 0 * 1000)) logs"

subsection \<open>Poller\<close>

text \<open>
  A chain on which every cycle fails, whatever the state; a wait during which \<open>stop()\<close> is
  never called.
\<close>

definition cycles_fail :: "'w PublicClient \<Rightarrow> 'w BlockCallback \<Rightarrow> bool" where
  "cycles_fail client callback = (\<forall>s. isl (outcome (pollBlocks client callback s)))"

definition never_stops :: "(int \<Rightarrow> 'w \<Rightarrow> bool \<times> 'w) \<Rightarrow> bool" where
  "never_stops sleep = (\<forall>ms w. fst (sleep ms w) = False)"

section \<open>Concrete inputs\<close>

text \<open>A remote call that throws at every call; its state counts the calls.\<close>

definition failing_rpc :: "nat \<Rightarrow> (js_error + unit) \<times> nat" where
  "failing_rpc n = (Inl (Thrown n ''CustomError'' ''rpc error'' [(''code'', ''RPC_TIMEOUT'')]), Suc n)"

text \<open>
  A log with a topic that no schema knows, a decoder library that rejects every log, and one
  that reads the log as a V3 swap with \<open>amount0 = - 500000\<close> and \<open>amount1 = 1000000\<close>.
\<close>

definition example_log :: Log where
  "example_log =
     \<lparr> address = ''0xBBBBBBBBBBBBBBBBBBBBBBBBBBBBBBBBBBBBBBBB'',
       blockHash = Some ''0x0000000000000000000000000000000000000000000000000000000000000001'',
       blockNumber = Some 18000100,
       data = ''0x0000000000000000000000000000000000000000000000000000000000000001'',
       logIndex = Some 0,
       transactionHash = Some ''0xabcdef1234567890abcdef1234567890abcdef1234567890abcdef1234567890'',
       transactionIndex = Some 0,
       removed = False,
       topics = [''0xdeadbeefdeadbeefdeadbeefdeadbeefdeadbeefdeadbeefdeadbeefdeadbeef''] \<rparr>"

definition signature_not_found :: js_error where
  "signature_not_found = Thrown 7 ''AbiEventSignatureNotFoundError'' ''signature not found'' []"

definition viem_rejecting :: viem where
  "viem_rejecting =
     \<lparr> decodeEventLog_ERC20_TRANSFER_ABI = (\<lambda>d t. Inl signature_not_found),
       decodeEventLog_SWAP_ABI = (\<lambda>d t. Inl signature_not_found),
       decodeEventLog_SWAP_V3_ABI = (\<lambda>d t. Inl signature_not_found) \<rparr>"

definition example_v3_args :: "SwapV3Args decoded" where
  "example_v3_args =
     \<lparr> eventName = ''Swap'',
       args = \<lparr> a3_sender = ''0x3333333333333333333333333333333333333333'',
                a3_recipient = ''0x4444444444444444444444444444444444444444'',
                a3_amount0 = - 500000, a3_amount1 = 1000000,
                a3_sqrtPriceX96 = 79228162514264337593543950336,
                a3_liquidity = 1000000000, a3_tick = 0 \<rparr> \<rparr>"

definition viem_v3 :: viem where
  "viem_v3 =
     \<lparr> decodeEventLog_ERC20_TRANSFER_ABI = (\<lambda>d t. Inl signature_not_found),
       decodeEventLog_SWAP_ABI = (\<lambda>d t. Inl signature_not_found),
       decodeEventLog_SWAP_V3_ABI = (\<lambda>d t. Inr example_v3_args) \<rparr>"

text \<open>
  A transfer and a swap of one block, a database backend that takes every write, and one
  that rejects the write of a swap row.
\<close>

definition example_transfer :: ERC20TransferData where
  "example_transfer =
     \<lparr> t_from = ''0x1111111111111111111111111111111111111111'',
       t_to = ''0x2222222222222222222222222222222222222222'',
       t_value = ''1000000000000000000'',
       t_tokenAddress = ''0xAAAAAAAAAAAAAAAAAAAAAAAAAAAAAAAAAAAAAAAA'',
       t_transactionHash = ''0xabcdef'',
       t_logIndex = 0, t_blockNumber = 18000100, t_blockTimestamp = 1705320000000 \<rparr>"

definition example_swap :: SwapData where
  "example_swap =
     \<lparr> s_poolAddress = ''0xBBBBBBBBBBBBBBBBBBBBBBBBBBBBBBBBBBBBBBBB'',
       s_sender = ''0x3333333333333333333333333333333333333333'',
       s_recipient = ''0x4444444444444444444444444444444444444444'',
       s_amount0In = ''1000000'', s_amount1In = ''0'', s_amount0Out = ''0'',
       s_amount1Out = ''500000'',
       s_transactionHash = ''0xfedcba'',
       s_logIndex = 1, s_blockNumber = 18000100, s_blockTimestamp = 1705320000000 \<rparr>"

definition db_write_failed :: js_error where
  "db_write_failed = Thrown 11 ''PrismaClientKnownRequestError'' ''DB write failed'' [(''code'', ''P2002'')]"

definition prisma_ok :: prisma where
  "prisma_ok = \<lparr> rejects_begin = (\<lambda>db. None), rejects_write = (\<lambda>wr tx. None),
       rejects_commit = (\<lambda>tx. None) \<rparr>"

definition prisma_rejects_swap :: prisma where
  "prisma_rejects_swap =
     \<lparr> rejects_begin = (\<lambda>db. None),
       rejects_write = (\<lambda>wr tx. case wr of SwapCreate r \<Rightarrow> Some db_write_failed | _ \<Rightarrow> None),
       rejects_commit = (\<lambda>tx. None) \<rparr>"

definition empty_store :: Store where
  "empty_store = \<lparr> committed = \<lparr> eventLog = [], eRC20Transfer = [], swap = [] \<rparr>, transactions = 0 \<rparr>"

text \<open>
  Listeners 1 and 2 are subscribed. In \<open>beh_quiet\<close> listener 1 throws and no listener
  touches the emitter; in \<open>beh_cancels\<close> listener 1 cancels listener 2 when it is called; in
  \<open>beh_subscribes\<close> listener 1 subscribes a listener 3 when it is called.
\<close>

definition example_event :: DecodedEvent where
  "example_event = Erc20Transfer example_transfer"

definition two_listeners :: IndexerEventEmitter where
  "two_listeners = subscribe 2 (subscribe 1 new_emitter)"

definition beh_quiet :: behaviour where
  "beh_quiet l event = \<lparr> ops = [], throws = (l = 1) \<rparr>"

definition beh_cancels :: behaviour where
  "beh_cancels l event = \<lparr> ops = (if l = 1 then [Cancel 2] else []), throws = False \<rparr>"

definition beh_subscribes :: behaviour where
  "beh_subscribes l event = \<lparr> ops = (if l = 1 then [Subscribe 3] else []), throws = False \<rparr>"

text \<open>
  Callback 2 is subscribed twice and callback 1 once, so the registered listeners are 2 and
  then 1. In \<open>beh_resubscribes\<close> listener 1 cancels callback 2 and subscribes it again when
  it is called.
\<close>

definition subscribed_twice :: IndexerEventEmitter where
  "subscribed_twice = subscribe 1 (subscribe 2 (subscribe 2 new_emitter))"

definition beh_resubscribes :: behaviour where
  "beh_resubscribes l event =
     \<lparr> ops = (if l = 1 then [Cancel 2, Subscribe 2] else []), throws = False \<rparr>"

text \<open>
  An indexer with two listeners and an empty store, on a chain whose block header has the
  timestamp 1705320000. With \<open>env_saving\<close> every write is taken; with \<open>env_rejecting\<close> the
  write of a swap row is rejected, and the block's log is a V3 swap.
\<close>

definition example_client :: "unit PublicClient" where
  "example_client =
     \<lparr> getBlockNumber = (\<lambda>w. (Inr 18000100, w)),
       getLogs = (\<lambda>fromBlock toBlock w. (Inr [example_log], w)),
       getBlock = (\<lambda>blockNo w. (Inr (Some 1705320000), w)) \<rparr>"

definition example_indexer :: "unit OnchainIndexer" where
  "example_indexer =
     \<lparr> state = \<lparr> lastBlockNumber = 18000000, isIndexing = True, lastError = None,
                 state_errorCount = 0 \<rparr>,
       storage = empty_store, eventEmitter = two_listeners, chain = () \<rparr>"

definition env_saving :: "unit environment" where
  "env_saving =
     \<lparr> env_client = example_client, env_viem = viem_v3, env_prisma = prisma_ok,
       env_listeners = beh_quiet, env_fuel = 2 \<rparr>"

definition env_rejecting :: "unit environment" where
  "env_rejecting =
     \<lparr> env_client = example_client, env_viem = viem_v3, env_prisma = prisma_rejects_swap,
       env_listeners = beh_quiet, env_fuel = 2 \<rparr>"

text \<open>
  A chain client whose height query always throws; its world counts the queries. A
  callback that does nothing, and a wait during which \<open>stop()\<close> is never called.
\<close>

definition rpc_down :: "nat PublicClient" where
  "rpc_down =
     \<lparr> getBlockNumber = (\<lambda>w. (Inl (Thrown w ''HttpRequestError'' ''rpc down'' []), Suc w)),
       getLogs = (\<lambda>fromBlock toBlock w. (Inr [], w)),
       getBlock = (\<lambda>blockNo w. (Inr None, w)) \<rparr>"

definition idle_callback :: "'w BlockCallback" where
  "idle_callback p blockNo logs w = (Inr (), w)"

definition never_stopped :: "int \<Rightarrow> 'w \<Rightarrow> bool \<times> 'w" where
  "never_stopped ms w = (False, w)"

text \<open>
  A chain of height 150 with one log in block 50 and one in block 120. The callback
  \<open>probe\<close> notes, for each call, the block number and what \<open>getCurrentBlock\<close> returns at
  that moment. With \<open>chain_150_broken\<close> the fetch of a range that starts at block 100 or
  later throws.
\<close>

definition log_at :: "int \<Rightarrow> Log" where
  "log_at b = example_log\<lparr> blockNumber := Some b \<rparr>"

definition logs_between :: "int \<Rightarrow> int \<Rightarrow> Log list" where
  "logs_between fromBlock toBlock =
     filter (\<lambda>l. case blockNumber l of None \<Rightarrow> False | Some b \<Rightarrow> fromBlock \<le> b \<and> b \<le> toBlock)
       [log_at 50, log_at 120]"

definition chain_150 :: "(int option \<times> int) list PublicClient" where
  "chain_150 =
     \<lparr> getBlockNumber = (\<lambda>w. (Inr 150, w)),
       getLogs = (\<lambda>fromBlock toBlock w. (Inr (logs_between fromBlock toBlock), w)),
       getBlock = (\<lambda>blockNo w. (Inr None, w)) \<rparr>"

definition chain_150_broken :: "(int option \<times> int) list PublicClient" where
  "chain_150_broken =
     \<lparr> getBlockNumber = (\<lambda>w. (Inr 150, w)),
       getLogs = (\<lambda>fromBlock toBlock w.
          if fromBlock \<ge> 100 then (Inl (Thrown 5 ''HttpRequestError'' ''rpc down'' []), w)
          else (Inr (logs_between fromBlock toBlock), w)),
       getBlock = (\<lambda>blockNo w. (Inr None, w)) \<rparr>"

definition probe :: "(int option \<times> int) list BlockCallback" where
  "probe p blockNo logs w = (Inr (), w @ [(blockNo, getCurrentBlock p)])"

section \<open>Retry: properties\<close>

lemma retry_loop_always_fails:
  assumes "always_fails fn" and "attempt \<le> r_maxRetries opts"
    and "k = nat (r_maxRetries opts - attempt)"
  shows "retry_loop opts fn attempt delay lastErr s n ds =
     \<lparr> outcome = fst (fn (after_calls fn k s)), final = after_calls fn (Suc k) s,
       calls = n + Suc k, slept = ds @ delays_from opts delay k \<rparr>"
  using assms
proof (induction k arbitrary: attempt delay lastErr s n ds)
  case 0
  then have eq: "attempt = r_maxRetries opts" by simp
  from "0.prems"(1) obtain e where e: "fst (fn s) = Inl e"
    unfolding always_fails_def by (metis isl_def)
  then obtain s' where "fn s = (Inl e, s')" by (cases "fn s") auto
  then show ?case using eq by simp
next
  case (Suc k)
  then have lt: "attempt < r_maxRetries opts" and k: "k = nat (r_maxRetries opts - (attempt + 1))"
    by auto
  from Suc.prems(1) obtain e where e: "fst (fn s) = Inl e"
    unfolding always_fails_def by (metis isl_def)
  then obtain s' where fs: "fn s = (Inl e, s')" by (cases "fn s") auto
  have le: "attempt + 1 \<le> r_maxRetries opts" using lt by simp
  have step: "retry_loop opts fn attempt delay lastErr s n ds =
      retry_loop opts fn (attempt + 1) (min (delay * r_backoffMultiplier opts) (r_maxDelayMs opts))
        (Some e) s' (Suc n) (ds @ [delay])"
    using lt fs by simp
  have s': "s' = snd (fn s)" using fs by simp
  show ?case
    unfolding step Suc.IH[OF Suc.prems(1) le k]
    by (simp add: s')
qed

lemma min_cap_step:
  fixes x m cap :: int
  assumes "1 \<le> m" "0 \<le> cap"
  shows "min (min x cap * m) cap = min (x * m) cap"
proof (cases "x \<le> cap")
  case True
  then show ?thesis by (simp add: min_def)
next
  case False
  then have x: "cap < x" by simp
  have "cap * 1 \<le> cap * m" using assms by (intro mult_left_mono) auto
  then have a: "cap \<le> cap * m" by simp
  have "x * 1 \<le> x * m" using assms x by (intro mult_left_mono) auto
  then have b: "cap < x * m" using x by simp
  show ?thesis using x a b by (simp add: min_def)
qed

lemma delays_from_closed:
  assumes "1 \<le> r_backoffMultiplier opts" "0 \<le> r_maxDelayMs opts"
  shows "delays_from opts (min (delay * r_backoffMultiplier opts ^ j) (r_maxDelayMs opts)) k =
     map (\<lambda>i. min (delay * r_backoffMultiplier opts ^ i) (r_maxDelayMs opts)) [j ..< j + k]"
proof (induction k arbitrary: j)
  case 0
  then show ?case by simp
next
  case (Suc k)
  let ?m = "r_backoffMultiplier opts" and ?cap = "r_maxDelayMs opts"
  have step: "min (min (delay * ?m ^ j) ?cap * ?m) ?cap = min (delay * ?m ^ Suc j) ?cap"
    using min_cap_step[OF assms, of "delay * ?m ^ j"] by (simp add: mult_ac)
  have upt: "[j ..< j + Suc k] = j # [Suc j ..< Suc j + k]"
    by (simp add: upt_conv_Cons)
  have "delays_from opts (min (delay * ?m ^ j) ?cap) (Suc k) =
      min (delay * ?m ^ j) ?cap # delays_from opts (min (delay * ?m ^ Suc j) ?cap) k"
    by (simp only: delays_from.simps step)
  also have "\<dots> = min (delay * ?m ^ j) ?cap #
      map (\<lambda>i. min (delay * ?m ^ i) ?cap) [Suc j ..< Suc j + k]"
    by (simp only: Suc.IH)
  finally show ?case by (simp only: upt list.map)
qed

text \<open>
  What a run of the retry loop keeps: a property of the state that every failing call
  keeps holds at the end of a run that rejects, and held before the call that returned in
  a run that resolves.
\<close>

lemma retry_loop_rejected:
  assumes step: "\<And>s e. P s \<Longrightarrow> fst (fn s) = Inl e \<Longrightarrow> P (snd (fn s))"
    and "P s" and "outcome (retry_loop opts fn attempt delay lastErr s n ds) = Inl e"
  shows "P (final (retry_loop opts fn attempt delay lastErr s n ds))"
  using assms
proof (induction opts fn attempt delay lastErr s n ds rule: retry_loop.induct)
  case (1 opts fn attempt delay lastErr s n ds)
  note step = "1.prems"(1) and Ps = "1.prems"(2) and out = "1.prems"(3)
  show ?case
  proof (cases "attempt \<le> r_maxRetries opts")
    case False
    then show ?thesis using Ps out by simp
  next
    case True
    obtain r s' where fs: "fn s = (r, s')" by (cases "fn s")
    show ?thesis
    proof (cases r)
      case (Inr v)
      then show ?thesis using True fs out by simp
    next
      case (Inl err)
      have P': "P s'" using step[OF Ps, of err] fs Inl by simp
      show ?thesis
      proof (cases "attempt = r_maxRetries opts")
        case True
        then show ?thesis using fs Inl P' by simp
      next
        case False
        have "P (final (retry_loop opts fn (attempt + 1)
                 (min (delay * r_backoffMultiplier opts) (r_maxDelayMs opts)) (Some err) s' (Suc n) (ds @ [delay])))"
          using "1.IH"[OF True _ _ False step P'] fs Inl out True False by simp
        then show ?thesis using True False fs Inl by simp
      qed
    qed
  qed
qed

lemma retry_loop_resolved:
  assumes step: "\<And>s e. P s \<Longrightarrow> fst (fn s) = Inl e \<Longrightarrow> P (snd (fn s))"
    and "P s" and "outcome (retry_loop opts fn attempt delay lastErr s n ds) = Inr v"
  shows "\<exists>s0. P s0 \<and> fn s0 = (Inr v, final (retry_loop opts fn attempt delay lastErr s n ds))"
  using assms
proof (induction opts fn attempt delay lastErr s n ds rule: retry_loop.induct)
  case (1 opts fn attempt delay lastErr s n ds)
  note step = "1.prems"(1) and Ps = "1.prems"(2) and out = "1.prems"(3)
  show ?case
  proof (cases "attempt \<le> r_maxRetries opts")
    case False
    then show ?thesis using Ps out by simp
  next
    case True
    obtain r s' where fs: "fn s = (r, s')" by (cases "fn s")
    show ?thesis
    proof (cases r)
      case (Inr v')
      then have "fn s = (Inr v, final (retry_loop opts fn attempt delay lastErr s n ds))"
        using True fs out by simp
      then show ?thesis using Ps by blast
    next
      case (Inl err)
      have P': "P s'" using step[OF Ps, of err] fs Inl by simp
      show ?thesis
      proof (cases "attempt = r_maxRetries opts")
        case True
        then show ?thesis using fs Inl out by simp
      next
        case False
        have eq: "retry_loop opts fn attempt delay lastErr s n ds =
            retry_loop opts fn (attempt + 1)
                 (min (delay * r_backoffMultiplier opts) (r_maxDelayMs opts)) (Some err) s' (Suc n) (ds @ [delay])"
          using True False fs Inl by simp
        show ?thesis
          unfolding eq
          using "1.IH"[OF True _ _ False step P'] fs Inl out eq by simp
      qed
    qed
  qed
qed

lemma retry_loop_invariant:
  assumes step: "\<And>s. P s \<Longrightarrow> P (snd (fn s))" and "P s"
  shows "P (final (retry_loop opts fn attempt delay lastErr s n ds))"
proof (cases "outcome (retry_loop opts fn attempt delay lastErr s n ds)")
  case (Inl e)
  show ?thesis
    by (rule retry_loop_rejected[where P = P, OF _ assms(2) Inl]) (rule step)
next
  case (Inr v)
  from retry_loop_resolved[where P = P, OF _ assms(2) Inr] step
  obtain s0 where "P s0" "fn s0 = (Inr v, final (retry_loop opts fn attempt delay lastErr s n ds))"
    by blast
  then show ?thesis using step[of s0] by simp
qed

text \<open>
  Claim C8, as the code has it. For a function that throws at every call and a
  \<open>maxRetries\<close> that is not negative, \<open>exponentialRetry\<close> calls the function exactly
  \<open>maxRetries + 1\<close> times and rejects with the very error value that the last call threw.
  The defaults are 3 retries, a base delay of 1000 ms, a cap of 30000 ms and a multiplier of
  2. The first delay is the base delay as it is given, and each later delay is the smaller
  of the delay before it times the multiplier and the cap; when the base delay is at most
  the cap, the multiplier at least 1 and the cap not negative, the delay before retry
  \<open>k\<close> is \<open>min (baseDelay * multiplier ^ k) cap\<close>.
\<close>

theorem exponentialRetry_exhausted:
  assumes "always_fails fn" and "0 \<le> r_maxRetries (merge_options DEFAULT_OPTIONS options)"
  shows "DEFAULT_OPTIONS = \<lparr> r_maxRetries = 3, r_baseDelayMs = 1000, r_maxDelayMs = 30000,
            r_backoffMultiplier = 2 \<rparr> \<and>
    (let opts = merge_options DEFAULT_OPTIONS options;
         k = nat (r_maxRetries opts);
         run = exponentialRetry fn options s
     in calls run = k + 1 \<and>
        isl (outcome run) \<and>
        outcome run = fst (fn (after_calls fn k s)) \<and>
        final run = after_calls fn (k + 1) s \<and>
        slept run = delays_from opts (r_baseDelayMs opts) k \<and>
        (if r_baseDelayMs opts \<le> r_maxDelayMs opts \<and> 1 \<le> r_backoffMultiplier opts \<and>
            0 \<le> r_maxDelayMs opts
         then slept run =
           map (\<lambda>i. min (r_baseDelayMs opts * r_backoffMultiplier opts ^ i) (r_maxDelayMs opts)) [0 ..< k]
         else True))"
proof -
  let ?opts = "merge_options DEFAULT_OPTIONS options"
  let ?k = "nat (r_maxRetries ?opts)"
  have k: "?k = nat (r_maxRetries ?opts - 0)" by simp
  have run: "exponentialRetry fn options s =
      \<lparr> outcome = fst (fn (after_calls fn ?k s)), final = after_calls fn (Suc ?k) s,
        calls = 0 + Suc ?k, slept = [] @ delays_from ?opts (r_baseDelayMs ?opts) ?k \<rparr>"
    unfolding exponentialRetry_def Let_def
    by (rule retry_loop_always_fails[OF assms(1) assms(2) k])
  have fails: "isl (fst (fn (after_calls fn ?k s)))"
    using assms(1) by (simp add: always_fails_def)
  have closed: "delays_from ?opts (r_baseDelayMs ?opts) ?k =
      map (\<lambda>i. min (r_baseDelayMs ?opts * r_backoffMultiplier ?opts ^ i) (r_maxDelayMs ?opts)) [0 ..< ?k]"
    if "r_baseDelayMs ?opts \<le> r_maxDelayMs ?opts" "1 \<le> r_backoffMultiplier ?opts"
      "0 \<le> r_maxDelayMs ?opts"
    using delays_from_closed[OF that(2) that(3), of "r_baseDelayMs ?opts" 0 ?k] that(1)
    by (simp add: min_def)
  have "DEFAULT_OPTIONS = \<lparr> r_maxRetries = 3, r_baseDelayMs = 1000, r_maxDelayMs = 30000,
      r_backoffMultiplier = 2 \<rparr>"
    by (simp add: DEFAULT_OPTIONS_def)
  moreover have "let opts = merge_options DEFAULT_OPTIONS options;
         k = nat (r_maxRetries opts);
         run = exponentialRetry fn options s
     in calls run = k + 1 \<and>
        isl (outcome run) \<and>
        outcome run = fst (fn (after_calls fn k s)) \<and>
        final run = after_calls fn (k + 1) s \<and>
        slept run = delays_from opts (r_baseDelayMs opts) k \<and>
        (if r_baseDelayMs opts \<le> r_maxDelayMs opts \<and> 1 \<le> r_backoffMultiplier opts \<and>
            0 \<le> r_maxDelayMs opts
         then slept run =
           map (\<lambda>i. min (r_baseDelayMs opts * r_backoffMultiplier opts ^ i) (r_maxDelayMs opts)) [0 ..< k]
         else True)"
    unfolding Let_def run using fails closed by simp
  ultimately show ?thesis by (rule conjI)
qed

lemma always_fails_failing_rpc: "always_fails failing_rpc"
  by (simp add: always_fails_def failing_rpc_def)

theorem exponentialRetry_exhausted_witness:
  "always_fails failing_rpc \<and>
   0 \<le> r_maxRetries (merge_options DEFAULT_OPTIONS
          (no_options\<lparr> maxRetries := Some 1, baseDelayMs := Some 1 \<rparr>)) \<and>
   calls (exponentialRetry failing_rpc (no_options\<lparr> maxRetries := Some 1, baseDelayMs := Some 1 \<rparr>) 0) = 2 \<and>
   outcome (exponentialRetry failing_rpc (no_options\<lparr> maxRetries := Some 1, baseDelayMs := Some 1 \<rparr>) 0) =
     Inl (Thrown 1 ''CustomError'' ''rpc error'' [(''code'', ''RPC_TIMEOUT'')]) \<and>
   slept (exponentialRetry failing_rpc (no_options\<lparr> maxRetries := Some 1, baseDelayMs := Some 1 \<rparr>) 0) = [1]"
  using exponentialRetry_exhausted[OF always_fails_failing_rpc,
      of "no_options\<lparr> maxRetries := Some 1, baseDelayMs := Some 1 \<rparr>" 0]
  by (simp add: always_fails_failing_rpc merge_options_def DEFAULT_OPTIONS_def no_options_def
      failing_rpc_def Let_def)

text \<open>
  Where claim C8 fails as it is written: with a base delay of 50000 ms and the default cap
  the first delay is 50000 ms, not \<open>min (50000 * 2 ^ 0) 30000\<close>; and with \<open>maxRetries = - 2\<close>
  the function is never called and the error is one that \<open>exponentialRetry\<close> makes itself.
\<close>

theorem exponentialRetry_counterexample:
  "slept (exponentialRetry failing_rpc (no_options\<lparr> baseDelayMs := Some 50000 \<rparr>) 0) =
     [50000, 30000, 30000] \<and>
   map (\<lambda>k. min (50000 * 2 ^ k) 30000) [0 ..< 3] = [30000, 30000, 30000 :: int] \<and>
   calls (exponentialRetry failing_rpc (no_options\<lparr> maxRetries := Some (- 2) \<rparr>) 0) = 0 \<and>
   outcome (exponentialRetry failing_rpc (no_options\<lparr> maxRetries := Some (- 2) \<rparr>) 0) =
     Inl (Created ''Retry failed'')"
  by (simp add: exponentialRetry_def merge_options_def DEFAULT_OPTIONS_def no_options_def
      failing_rpc_def upt_conv_Cons)

section \<open>Decoder: properties\<close>

lemma tryDecodeERC20Transfer_matches:
  "tryDecodeERC20Transfer v log ts \<noteq> None \<longleftrightarrow> matches_Transfer v log"
  by (simp add: tryDecodeERC20Transfer_def tryDecodeERC20Transfer_body_def catch_null_def
      matches_Transfer_def split: sum.splits)

lemma tryDecodeSwapV2_matches:
  "tryDecodeSwapV2 v log ts \<noteq> None \<longleftrightarrow> matches_SwapV2 v log"
  by (simp add: tryDecodeSwapV2_def tryDecodeSwapV2_body_def catch_null_def
      matches_SwapV2_def Let_def split: sum.splits)

lemma tryDecodeSwapV3_matches:
  "tryDecodeSwapV3 v log ts \<noteq> None \<longleftrightarrow> matches_SwapV3 v log"
  by (simp add: tryDecodeSwapV3_def tryDecodeSwapV3_body_def catch_null_def
      matches_SwapV3_def Let_def split: sum.splits)

text \<open>
  Claim C6. \<open>decode\<close> is a total function of the log and the timestamp: every throw of
  \<open>decodeEventLog\<close> is inside a \<open>try\<close> block and caught there, so a call always returns
  one \<open>DecodedEvent\<close>. The schemas are tried in the order Transfer, V2 swap, V3 swap,
  and the first that matches gives the result; a schema that does not match, also when the
  library throws, returns \<open>null\<close> and the next schema is tried; when none matches the
  result is \<open>Unknown\<close> of the very log that was given.
\<close>

theorem decode_first_match:
  "decode v log ts =
     (if matches_Transfer v log then Erc20Transfer (the (tryDecodeERC20Transfer v log ts))
      else if matches_SwapV2 v log then Swap (the (tryDecodeSwapV2 v log ts))
      else if matches_SwapV3 v log then Swap (the (tryDecodeSwapV3 v log ts))
      else Unknown log) \<and>
   (matches_Transfer v log \<longleftrightarrow> tryDecodeERC20Transfer v log ts \<noteq> None) \<and>
   (matches_SwapV2 v log \<longleftrightarrow> tryDecodeSwapV2 v log ts \<noteq> None) \<and>
   (matches_SwapV3 v log \<longleftrightarrow> tryDecodeSwapV3 v log ts \<noteq> None) \<and>
   (isl (decodeEventLog_ERC20_TRANSFER_ABI v (data log) (topics log)) \<longrightarrow> \<not> matches_Transfer v log) \<and>
   (isl (decodeEventLog_SWAP_ABI v (data log) (topics log)) \<longrightarrow> \<not> matches_SwapV2 v log) \<and>
   (isl (decodeEventLog_SWAP_V3_ABI v (data log) (topics log)) \<longrightarrow> \<not> matches_SwapV3 v log)"
proof -
  have order: "decode v log ts =
     (if matches_Transfer v log then Erc20Transfer (the (tryDecodeERC20Transfer v log ts))
      else if matches_SwapV2 v log then Swap (the (tryDecodeSwapV2 v log ts))
      else if matches_SwapV3 v log then Swap (the (tryDecodeSwapV3 v log ts))
      else Unknown log)"
    using tryDecodeERC20Transfer_matches[of v log ts] tryDecodeSwapV2_matches[of v log ts]
      tryDecodeSwapV3_matches[of v log ts]
    by (auto simp: decode_def split: option.splits)
  have throws: "isl (decodeEventLog_ERC20_TRANSFER_ABI v (data log) (topics log)) \<longrightarrow> \<not> matches_Transfer v log"
    "isl (decodeEventLog_SWAP_ABI v (data log) (topics log)) \<longrightarrow> \<not> matches_SwapV2 v log"
    "isl (decodeEventLog_SWAP_V3_ABI v (data log) (topics log)) \<longrightarrow> \<not> matches_SwapV3 v log"
    by (auto simp: matches_Transfer_def matches_SwapV2_def matches_SwapV3_def split: sum.splits)
  show ?thesis
    using order throws tryDecodeERC20Transfer_matches[of v log ts]
      tryDecodeSwapV2_matches[of v log ts] tryDecodeSwapV3_matches[of v log ts]
    by blast
qed

theorem decode_first_match_witness:
  "isl (decodeEventLog_ERC20_TRANSFER_ABI viem_rejecting (data example_log) (topics example_log)) \<and>
   isl (decodeEventLog_SWAP_ABI viem_rejecting (data example_log) (topics example_log)) \<and>
   isl (decodeEventLog_SWAP_V3_ABI viem_rejecting (data example_log) (topics example_log)) \<and>
   decode viem_rejecting example_log 1705320000000 = Unknown example_log"
  using decode_first_match[of viem_rejecting example_log 1705320000000]
  by (simp add: viem_rejecting_def matches_Transfer_def matches_SwapV2_def matches_SwapV3_def)

lemma digit_char_value:
  assumes "d < 10"
  shows "of_char (digit_char d) = (48 + d :: nat)"
proof -
  from assms have "d = 0 \<or> d = 1 \<or> d = 2 \<or> d = 3 \<or> d = 4 \<or> d = 5 \<or> d = 6 \<or> d = 7 \<or> d = 8 \<or> d = 9"
    by arith
  then show ?thesis
    by (elim disjE) (simp_all add: digit_char_def)
qed

lemma nat_toString_decimal: "decimal_value (nat_toString n) = n"
proof (induction n rule: nat_toString.induct)
  case (1 n)
  show ?case
  proof (cases "n < 10")
    case True
    then show ?thesis
      by (subst nat_toString.simps) (simp add: decimal_value_def digit_char_value)
  next
    case False
    have "decimal_value (nat_toString n) = 10 * decimal_value (nat_toString (n div 10)) + n mod 10"
      using False by (subst nat_toString.simps) (simp add: decimal_value_def digit_char_value)
    then show ?thesis using 1 False by simp
  qed
qed

text \<open>
  Claim C7. For a log that matches the V3 swap schema with the signed amounts \<open>amount0\<close>
  and \<open>amount1\<close>: a negative amount puts the decimal string of its absolute value in the
  \<open>In\<close> field and \<open>"0"\<close> in the \<open>Out\<close> field, a positive amount puts its decimal string
  in the \<open>Out\<close> field and \<open>"0"\<close> in the \<open>In\<close> field, and zero puts \<open>"0"\<close> in both.
  This is also the result of \<open>decode\<close> when the two earlier schemas do not match. By
  \<open>nat_toString_decimal\<close> the string of a number is its base-10 notation.
\<close>

theorem tryDecodeSwapV3_sign:
  assumes "decodeEventLog_SWAP_V3_ABI v (data log) (topics log) = Inr d"
    and "eventName d = ''Swap''"
  shows "\<exists>sw. tryDecodeSwapV3 v log ts = Some sw \<and>
     s_amount0In sw = (if a3_amount0 (args d) < 0 then nat_toString (nat \<bar>a3_amount0 (args d)\<bar>) else ''0'') \<and>
     s_amount0Out sw = (if a3_amount0 (args d) > 0 then nat_toString (nat (a3_amount0 (args d))) else ''0'') \<and>
     s_amount1In sw = (if a3_amount1 (args d) < 0 then nat_toString (nat \<bar>a3_amount1 (args d)\<bar>) else ''0'') \<and>
     s_amount1Out sw = (if a3_amount1 (args d) > 0 then nat_toString (nat (a3_amount1 (args d))) else ''0'') \<and>
     (if matches_Transfer v log \<or> matches_SwapV2 v log then True else decode v log ts = Swap sw)"
proof -
  obtain sw where sw: "tryDecodeSwapV3 v log ts = Some sw"
    using assms
    by (simp add: tryDecodeSwapV3_def tryDecodeSwapV3_body_def catch_null_def Let_def)
  have fields:
    "s_amount0In sw = (if a3_amount0 (args d) < 0 then nat_toString (nat \<bar>a3_amount0 (args d)\<bar>) else ''0'')"
    "s_amount0Out sw = (if a3_amount0 (args d) > 0 then nat_toString (nat (a3_amount0 (args d))) else ''0'')"
    "s_amount1In sw = (if a3_amount1 (args d) < 0 then nat_toString (nat \<bar>a3_amount1 (args d)\<bar>) else ''0'')"
    "s_amount1Out sw = (if a3_amount1 (args d) > 0 then nat_toString (nat (a3_amount1 (args d))) else ''0'')"
    using assms sw
    by (auto simp: tryDecodeSwapV3_def tryDecodeSwapV3_body_def catch_null_def Let_def
        bigint_toString_def simp del: nat_toString.simps)
  have "decode v log ts = Swap sw"
    if "\<not> matches_Transfer v log" "\<not> matches_SwapV2 v log"
  proof -
    have "tryDecodeERC20Transfer v log ts = None"
      using that(1) tryDecodeERC20Transfer_matches[of v log ts] by simp
    moreover have "tryDecodeSwapV2 v log ts = None"
      using that(2) tryDecodeSwapV2_matches[of v log ts] by simp
    ultimately show ?thesis by (simp add: decode_def sw)
  qed
  then show ?thesis using sw fields by auto
qed

theorem tryDecodeSwapV3_sign_witness:
  "decodeEventLog_SWAP_V3_ABI viem_v3 (data example_log) (topics example_log) = Inr example_v3_args \<and>
   eventName example_v3_args = ''Swap'' \<and>
   (\<exists>sw. tryDecodeSwapV3 viem_v3 example_log 1705320000000 = Some sw \<and>
      decode viem_v3 example_log 1705320000000 = Swap sw \<and>
      s_amount0In sw = ''500000'' \<and> s_amount1In sw = ''0'' \<and>
      s_amount0Out sw = ''0'' \<and> s_amount1Out sw = ''1000000'')"
proof -
  have h1: "decodeEventLog_SWAP_V3_ABI viem_v3 (data example_log) (topics example_log) = Inr example_v3_args"
    by (simp add: viem_v3_def)
  have h2: "eventName example_v3_args = ''Swap''"
    by (simp add: example_v3_args_def)
  have others: "\<not> (matches_Transfer viem_v3 example_log \<or> matches_SwapV2 viem_v3 example_log)"
    by (simp add: matches_Transfer_def matches_SwapV2_def viem_v3_def)
  have amounts: "a3_amount0 (args example_v3_args) = - 500000" "a3_amount1 (args example_v3_args) = 1000000"
    by (simp_all add: example_v3_args_def)
  have digits: "nat_toString 500000 = ''500000''" "nat_toString 1000000 = ''1000000''"
    by (simp_all add: digit_char_def)
  from tryDecodeSwapV3_sign[OF h1 h2, of 1705320000000] obtain sw where
    sw: "tryDecodeSwapV3 viem_v3 example_log 1705320000000 = Some sw"
      "s_amount0In sw = (if a3_amount0 (args example_v3_args) < 0
         then nat_toString (nat \<bar>a3_amount0 (args example_v3_args)\<bar>) else ''0'')"
      "s_amount0Out sw = (if a3_amount0 (args example_v3_args) > 0
         then nat_toString (nat (a3_amount0 (args example_v3_args))) else ''0'')"
      "s_amount1In sw = (if a3_amount1 (args example_v3_args) < 0
         then nat_toString (nat \<bar>a3_amount1 (args example_v3_args)\<bar>) else ''0'')"
      "s_amount1Out sw = (if a3_amount1 (args example_v3_args) > 0
         then nat_toString (nat (a3_amount1 (args example_v3_args))) else ''0'')"
      "(if matches_Transfer viem_v3 example_log \<or> matches_SwapV2 viem_v3 example_log then True
        else decode viem_v3 example_log 1705320000000 = Swap sw)"
    by blast
  have "decode viem_v3 example_log 1705320000000 = Swap sw"
    using sw(6) others by simp
  moreover have "s_amount0In sw = ''500000''" "s_amount1In sw = ''0''"
    "s_amount0Out sw = ''0''" "s_amount1Out sw = ''1000000''"
    using sw(2-5) digits by (simp_all add: amounts del: nat_toString.simps)
  ultimately show ?thesis using h1 h2 sw(1) by blast
qed

section \<open>Storage: properties\<close>

lemma with_batch_Nil: "with_batch bn ts [] db = db"
  by (simp add: with_batch_def)

lemma with_batch_Cons:
  "with_batch bn ts (e # es) db = with_batch bn ts es (with_batch bn ts [e] db)"
  by (cases e) (simp_all add: with_batch_def)

lemma save_event_ok:
  assumes "save_event px bn ts e tx = Inr tx'"
  shows "tx' = with_batch bn ts [e] tx"
  using assms
  by (cases e)
     (auto simp: tx_create_def saveERC20Transfer_def saveSwap_def with_batch_def
        split: option.splits sum.splits)

lemma save_events_ok:
  assumes "save_events px bn ts es tx = Inr tx'"
  shows "tx' = with_batch bn ts es tx"
  using assms
proof (induction es arbitrary: tx)
  case Nil
  then show ?case by (simp add: with_batch_Nil)
next
  case (Cons e es)
  from Cons.prems obtain tx1 where e: "save_event px bn ts e tx = Inr tx1"
    and es: "save_events px bn ts es tx1 = Inr tx'"
    by (auto split: sum.splits)
  have "tx1 = with_batch bn ts [e] tx" using e by (rule save_event_ok)
  moreover have "tx' = with_batch bn ts es tx1" using es by (rule Cons.IH)
  ultimately show ?case by (simp add: with_batch_Cons[of bn ts e es])
qed

lemma transaction_counts:
  "transactions (snd (transaction px callback st)) = Suc (transactions st)"
  by (simp add: transaction_def Let_def split: option.splits sum.splits)

lemma transaction_rejected:
  assumes "fst (transaction px callback st) = Inl e"
  shows "committed (snd (transaction px callback st)) = committed st"
  using assms
  by (auto simp: transaction_def Let_def split: option.splits sum.splits)

lemma transaction_committed:
  assumes "fst (transaction px callback st) = Inr u"
  shows "callback (committed st) = Inr (committed (snd (transaction px callback st)))"
  using assms
  by (auto simp: transaction_def Let_def split: option.splits sum.splits)

lemma saveBlockEvents_is_transaction:
  "saveBlockEvents px bn ts es st = transaction px (save_events px bn ts es) st"
  by (simp add: saveBlockEvents_def split: prod.splits sum.splits)

text \<open>
  Claim C2. \<open>saveBlockEvents\<close> is one call of \<open>$transaction\<close> around all the writes of
  the block, and its outcome is the outcome of that call, error included. It makes exactly
  one such call, also for an empty list of events. When it resolves, the committed tables
  are the tables before with the rows of every event added, in the order of the events;
  when it rejects, the committed tables are the tables before, so no read sees a row of the
  batch, \<open>getStats\<close> for one. For an empty list nothing is written, and a rejection can only come from the
  transaction itself.
\<close>

theorem saveBlockEvents_atomic:
  "saveBlockEvents px bn ts es st = transaction px (save_events px bn ts es) st \<and>
   transactions (snd (saveBlockEvents px bn ts es st)) = Suc (transactions st) \<and>
   (case fst (saveBlockEvents px bn ts es st) of
      Inl e \<Rightarrow> committed (snd (saveBlockEvents px bn ts es st)) = committed st
    | Inr u \<Rightarrow> committed (snd (saveBlockEvents px bn ts es st)) = with_batch bn ts es (committed st)) \<and>
   (case fst (saveBlockEvents px bn ts [] st) of
      Inl e \<Rightarrow> rejects_begin px (committed st) = Some e \<or> rejects_commit px (committed st) = Some e
    | Inr u \<Rightarrow> True) \<and>
   committed (snd (saveBlockEvents px bn ts [] st)) = committed st \<and>
   (case fst (saveBlockEvents px bn ts es st) of
      Inl e \<Rightarrow> getStats (snd (saveBlockEvents px bn ts es st)) = getStats st
    | Inr u \<Rightarrow> True)"
proof -
  let ?t = "transaction px (save_events px bn ts es) st"
  have a: "saveBlockEvents px bn ts es st = ?t" by (rule saveBlockEvents_is_transaction)
  have b: "transactions (snd ?t) = Suc (transactions st)" by (rule transaction_counts)
  have c: "(case fst ?t of
      Inl e \<Rightarrow> committed (snd ?t) = committed st
    | Inr u \<Rightarrow> committed (snd ?t) = with_batch bn ts es (committed st))"
  proof (cases "fst ?t")
    case (Inl e)
    then show ?thesis using transaction_rejected[of px _ st e] by simp
  next
    case (Inr u)
    from transaction_committed[OF Inr] have "committed (snd ?t) = with_batch bn ts es (committed st)"
      by (rule save_events_ok)
    then show ?thesis using Inr by simp
  qed
  have d: "(case fst (saveBlockEvents px bn ts [] st) of
      Inl e \<Rightarrow> rejects_begin px (committed st) = Some e \<or> rejects_commit px (committed st) = Some e
    | Inr u \<Rightarrow> True)"
    by (simp add: saveBlockEvents_is_transaction transaction_def Let_def split: option.splits sum.splits)
  have e: "committed (snd (saveBlockEvents px bn ts [] st)) = committed st"
    by (simp add: saveBlockEvents_is_transaction transaction_def Let_def split: option.splits sum.splits)
  have f: "(case fst ?t of Inl e \<Rightarrow> getStats (snd ?t) = getStats st | Inr u \<Rightarrow> True)"
    using c by (cases "fst ?t") (simp_all add: getStats_def)
  show ?thesis using b c d e f unfolding a[symmetric] by (simp add: a)
qed

text \<open>
  The batch of a transfer and a swap: with a backend that rejects the swap row the call
  rejects with the backend's error and the store holds no row of the batch, not even the
  rows of the transfer that were written before; with a backend that takes every write all
  four rows are committed.
\<close>

lemma saveBlockEvents_example_rejected:
  "saveBlockEvents prisma_rejects_swap 18000100 1705320000000
     [Erc20Transfer example_transfer, Swap example_swap] empty_store =
   (Inl db_write_failed, empty_store\<lparr> transactions := 1 \<rparr>)"
  by (simp add: saveBlockEvents_def transaction_def prisma_rejects_swap_def tx_create_def
      saveERC20Transfer_def saveSwap_def empty_store_def Let_def)

lemma saveBlockEvents_example_committed:
  "saveBlockEvents prisma_ok 18000100 1705320000000
     [Erc20Transfer example_transfer, Swap example_swap] empty_store =
   (Inr (), \<lparr> committed =
       \<lparr> eventLog = [audit_row 18000100 1705320000000 (Erc20Transfer example_transfer),
                     audit_row 18000100 1705320000000 (Swap example_swap)],
         eRC20Transfer = [example_transfer], swap = [example_swap] \<rparr>,
      transactions = 1 \<rparr>)"
  by (simp add: saveBlockEvents_def transaction_def prisma_ok_def tx_create_def
      saveERC20Transfer_def saveSwap_def empty_store_def Let_def)

section \<open>Emitter: properties\<close>

lemma Set_values_mem: "v \<in> set (Set_values es) \<longleftrightarrow> Some v \<in> set es"
  by (induction es rule: Set_values.induct) auto

lemma Set_values_append: "Set_values (es @ fs) = Set_values es @ Set_values fs"
  by (induction es rule: Set_values.induct) auto

lemma Set_values_add:
  "Set_values (Set_add v es) = (if v \<in> set (Set_values es) then Set_values es else Set_values es @ [v])"
  by (simp add: Set_values_mem Set_values_append)

lemma Set_values_delete: "Set_values (Set_delete v es) = remove1 v (Set_values es)"
  by (induction es rule: Set_values.induct) auto

lemma Set_delete_absent: "Some v \<notin> set es \<Longrightarrow> Set_delete v es = es"
  by (induction es) auto

lemma length_Set_delete: "length (Set_delete v es) = length es"
  by (induction es) auto

lemma Set_add_twice: "Set_add v (Set_add v es) = Set_add v es"
  by simp

lemma Set_delete_twice:
  assumes "distinct (Set_values es)"
  shows "Set_delete v (Set_delete v es) = Set_delete v es"
proof -
  have "v \<notin> set (Set_values (Set_delete v es))"
    using assms by (simp add: Set_values_delete)
  then have "Some v \<notin> set (Set_delete v es)" by (simp add: Set_values_mem)
  then show ?thesis by (rule Set_delete_absent)
qed

lemma well_formed_new: "well_formed new_emitter"
  by (simp add: well_formed_def registered_def new_emitter_def)

lemma well_formed_subscribe: "well_formed em \<Longrightarrow> well_formed (subscribe cb em)"
  by (simp add: well_formed_def registered_def subscribe_def Set_values_add del: Set_add.simps)

lemma well_formed_cancel: "well_formed em \<Longrightarrow> well_formed (cancel_handle cb em)"
  by (simp add: well_formed_def registered_def cancel_handle_def Set_values_delete)

lemma call_listener_quiet:
  assumes "quiet beh"
  shows "call_listener beh l event em =
     em\<lparr> delivered := delivered em @ [(l, event)],
         logged := logged em + (if throws (beh l event) then 1 else 0) \<rparr>"
  using assms by (simp add: call_listener_def quiet_def Let_def)

lemma emit_loop_quiet:
  assumes "quiet beh" and "length (listeners em) \<le> index + fuel"
  shows "emit_loop fuel beh event index em =
     Some (em\<lparr> delivered := delivered em @ map (\<lambda>l. (l, event)) (Set_values (drop index (listeners em))),
               logged := logged em + throwing beh event (Set_values (drop index (listeners em))) \<rparr>)"
  using assms(2)
proof (induction fuel arbitrary: index em)
  case 0
  then show ?case by (simp add: throwing_def)
next
  case (Suc fuel)
  show ?case
  proof (cases "index < length (listeners em)")
    case False
    then show ?thesis by (simp add: throwing_def)
  next
    case True
    then have dr: "drop index (listeners em) = listeners em ! index # drop (Suc index) (listeners em)"
      by (simp add: Cons_nth_drop_Suc)
    show ?thesis
    proof (cases "listeners em ! index")
      case None
      have "length (listeners em) \<le> Suc index + fuel" using Suc.prems by simp
      from Suc.IH[OF this] show ?thesis using True None dr by simp
    next
      case (Some l)
      let ?em1 = "call_listener beh l event em"
      have em1: "?em1 = em\<lparr> delivered := delivered em @ [(l, event)],
         logged := logged em + (if throws (beh l event) then 1 else 0) \<rparr>"
        by (rule call_listener_quiet[OF assms(1)])
      have "length (listeners ?em1) \<le> Suc index + fuel" using Suc.prems by (simp add: em1)
      from Suc.IH[OF this] show ?thesis using True Some dr by (simp add: em1 throwing_def)
    qed
  qed
qed

lemma emit_quiet:
  assumes "quiet beh" and "length (listeners em) \<le> fuel"
  shows "emit fuel beh event em =
     Some (em\<lparr> published := published em @ [event],
               delivered := delivered em @ map (\<lambda>l. (l, event)) (registered em),
               logged := logged em + throwing beh event (registered em) \<rparr>)"
proof -
  let ?em0 = "em\<lparr> published := published em @ [event] \<rparr>"
  have "length (listeners ?em0) \<le> 0 + fuel" using assms(2) by simp
  from emit_loop_quiet[OF assms(1) this, of event] show ?thesis
    by (simp add: emit_def registered_def)
qed


lemma registered_subscribe:
  "registered (subscribe cb em) = (if cb \<in> set (registered em) then registered em else registered em @ [cb])"
  by (simp add: registered_def subscribe_def Set_values_add del: Set_add.simps)

lemma registered_cancel: "registered (cancel_handle cb em) = remove1 cb (registered em)"
  by (simp add: registered_def cancel_handle_def Set_values_delete)

lemma count_list_distinct:
  "distinct xs \<Longrightarrow> count_list xs x = (if x \<in> set xs then 1 else 0)"
  by (induction xs) auto

lemma count_list_deliveries: "count_list (map (\<lambda>l. (l, event)) ls) (cb, event) = count_list ls cb"
  by (induction ls) auto

text \<open>
  Claim C5, as the code has it. \<open>emit\<close> walks the live \<open>Set\<close>, not a copy of it. When no
  listener subscribes or cancels while the event is delivered, the call ends and has called
  exactly the listeners that were registered when it began, each once and in the order of
  their registration (a new callback is registered behind the others), also behind a
  listener that throws; the listeners are as before.
\<close>

theorem emit_quiet_listeners:
  assumes "quiet beh" and "length (listeners em) \<le> fuel"
  shows "(\<exists>em'. emit fuel beh event em = Some em' \<and>
           listeners em' = listeners em \<and>
           published em' = published em @ [event] \<and>
           delivered em' = delivered em @ map (\<lambda>l. (l, event)) (registered em) \<and>
           logged em' = logged em + throwing beh event (registered em)) \<and>
         registered (subscribe cb em) =
           (if cb \<in> set (registered em) then registered em else registered em @ [cb])"
  using emit_quiet[OF assms, of event] registered_subscribe[of cb em] by simp

theorem emit_quiet_listeners_witness:
  "quiet beh_quiet \<and> length (listeners two_listeners) \<le> 2 \<and>
   registered two_listeners = [1, 2] \<and>
   map_option delivered (emit 2 beh_quiet example_event two_listeners) =
     Some [(1, example_event), (2, example_event)] \<and>
   map_option logged (emit 2 beh_quiet example_event two_listeners) = Some 1"
proof -
  have q: "quiet beh_quiet" by (simp add: quiet_def beh_quiet_def)
  have l: "length (listeners two_listeners) \<le> 2"
    by (simp add: two_listeners_def subscribe_def new_emitter_def)
  have r: "registered two_listeners = [1, 2]"
    by (simp add: registered_def two_listeners_def subscribe_def new_emitter_def)
  have d: "delivered two_listeners = []" "logged two_listeners = 0"
    by (simp_all add: two_listeners_def subscribe_def new_emitter_def)
  have t: "throwing beh_quiet example_event [1, 2] = 1"
    by (simp add: throwing_def beh_quiet_def)
  from emit_quiet_listeners[OF q l, of example_event] obtain em' where
    em': "emit 2 beh_quiet example_event two_listeners = Some em'"
      "delivered em' = delivered two_listeners @ map (\<lambda>l. (l, example_event)) (registered two_listeners)"
      "logged em' = logged two_listeners + throwing beh_quiet example_event (registered two_listeners)"
    by blast
  have "delivered em' = [(1, example_event), (2, example_event)]"
    unfolding em'(2) r d by simp
  moreover have "logged em' = 1"
    unfolding em'(3) r d t by simp
  ultimately show ?thesis using q l r em'(1) by simp
qed

text \<open>
  Where claim C5 fails as it is written: listeners 1 and 2 are registered when \<open>emit\<close>
  begins. When listener 1 cancels listener 2 during the delivery, listener 2 is not called;
  when listener 1 subscribes a listener 3 during the delivery, listener 3 is called in the
  same \<open>emit\<close>.
\<close>

theorem emit_live_set_counterexample:
  "registered two_listeners = [1, 2] \<and>
   map_option delivered (emit 5 beh_cancels example_event two_listeners) =
     Some [(1, example_event)] \<and>
   map_option delivered (emit 5 beh_subscribes example_event two_listeners) =
     Some [(1, example_event), (2, example_event), (3, example_event)]"
  by (simp add: registered_def two_listeners_def subscribe_def cancel_handle_def new_emitter_def
      emit_def call_listener_def beh_cancels_def beh_subscribes_def eval_nat_numeral)

text \<open>
  Claim C10, as the code has it. Subscribing a callback a second time leaves the emitter as
  it was after the first time: the callback has one registration and an \<open>emit\<close> does the
  same as after one subscription. The callback is called once for a published event when
  no listener subscribes or cancels during the delivery; the single registration alone
  does not bound the calls, since \<open>emit\<close> walks the live \<open>Set\<close>. A cancel handle of the
  callback removes the registration, and calling a handle again changes nothing.
\<close>

theorem subscribe_cancel_set:
  assumes "well_formed em"
  shows "subscribe cb (subscribe cb em) = subscribe cb em \<and>
     emit fuel beh event (subscribe cb (subscribe cb em)) = emit fuel beh event (subscribe cb em) \<and>
     count_list (registered (subscribe cb (subscribe cb em))) cb = 1 \<and>
     (if quiet beh \<and> length (listeners (subscribe cb em)) \<le> fuel
      then map_option (\<lambda>em'. count_list (drop (length (delivered em)) (delivered em')) (cb, event))
             (emit fuel beh event (subscribe cb (subscribe cb em))) = Some 1
      else True) \<and>
     cb \<notin> set (registered (cancel_handle cb (subscribe cb (subscribe cb em)))) \<and>
     cancel_handle cb (cancel_handle cb em) = cancel_handle cb em \<and>
     well_formed (subscribe cb em) \<and> well_formed (cancel_handle cb em)"
proof -
  have twice: "subscribe cb (subscribe cb em) = subscribe cb em"
    by (simp add: subscribe_def)
  have wf: "well_formed (subscribe cb em)" using assms by (rule well_formed_subscribe)
  have wfc: "well_formed (cancel_handle cb em)" using assms by (rule well_formed_cancel)
  have mem: "cb \<in> set (registered (subscribe cb em))" by (simp add: registered_subscribe)
  have once: "count_list (registered (subscribe cb em)) cb = 1"
    using wf mem by (simp add: well_formed_def count_list_distinct)
  have emitted: "map_option (\<lambda>em'. count_list (drop (length (delivered em)) (delivered em')) (cb, event))
             (emit fuel beh event (subscribe cb em)) = Some 1"
    if "quiet beh" "length (listeners (subscribe cb em)) \<le> fuel"
    using emit_quiet[OF that, of event] once
    by (simp add: count_list_deliveries subscribe_def)
  have gone: "cb \<notin> set (registered (cancel_handle cb (subscribe cb em)))"
    using wf by (simp add: registered_cancel well_formed_def)
  have idem: "cancel_handle cb (cancel_handle cb em) = cancel_handle cb em"
    using assms Set_delete_twice[of "listeners em" cb]
    by (simp add: cancel_handle_def well_formed_def registered_def)
  show ?thesis
    unfolding twice using once emitted gone idem wf wfc by simp
qed

theorem subscribe_cancel_set_witness:
  "well_formed two_listeners \<and>
   subscribe 2 (subscribe 2 two_listeners) = two_listeners \<and>
   quiet beh_quiet \<and> length (listeners (subscribe 2 two_listeners)) \<le> 2 \<and>
   map_option (\<lambda>em'. count_list (delivered em') (2, example_event))
     (emit 2 beh_quiet example_event (subscribe 2 (subscribe 2 two_listeners))) = Some 1 \<and>
   registered (cancel_handle 2 (subscribe 2 (subscribe 2 two_listeners))) = [1] \<and>
   cancel_handle 2 (cancel_handle 2 two_listeners) = cancel_handle 2 two_listeners"
proof -
  have wf: "well_formed two_listeners"
    by (simp add: well_formed_def registered_def two_listeners_def subscribe_def new_emitter_def)
  have q: "quiet beh_quiet" by (simp add: quiet_def beh_quiet_def)
  have same: "subscribe 2 two_listeners = two_listeners"
    by (simp add: two_listeners_def subscribe_def new_emitter_def)
  have l: "length (listeners (subscribe 2 two_listeners)) \<le> 2"
    by (simp add: two_listeners_def subscribe_def new_emitter_def)
  have d: "delivered two_listeners = []"
    by (simp add: two_listeners_def subscribe_def new_emitter_def)
  have r: "registered (cancel_handle 2 two_listeners) = [1]"
    by (simp add: registered_def cancel_handle_def two_listeners_def subscribe_def new_emitter_def)
  from subscribe_cancel_set[OF wf, where cb = 2 and beh = beh_quiet and fuel = 2 and event = example_event] show ?thesis
    using wf q l by (simp add: same d r)
qed

text \<open>
  Where claim C10 fails as it is written: callback 2 was subscribed twice and has one
  registration, in front of listener 1. When listener 1 cancels callback 2 and subscribes
  it again during the delivery, the new entry lies behind the place the loop has reached,
  and callback 2 is called a second time for the same event.
\<close>

theorem subscribe_twice_called_twice_counterexample:
  "well_formed subscribed_twice \<and>
   registered subscribed_twice = [2, 1] \<and>
   count_list (registered subscribed_twice) 2 = 1 \<and>
   map_option delivered (emit 5 beh_resubscribes example_event subscribed_twice) =
     Some [(2, example_event), (1, example_event), (2, example_event)] \<and>
   map_option (\<lambda>em'. count_list (delivered em') (2, example_event))
     (emit 5 beh_resubscribes example_event subscribed_twice) = Some 2"
  by (simp add: well_formed_def registered_def subscribed_twice_def subscribe_def cancel_handle_def
      new_emitter_def emit_def call_listener_def beh_resubscribes_def eval_nat_numeral)

text \<open>
  What every \<open>emit\<close> keeps, whatever the listeners do: it adds the event to the published
  events, it adds calls with that event to the calls made, and it keeps the \<open>Set\<close> free
  of doubles.
\<close>

lemma apply_op_published: "published (apply_op a em) = published em"
  by (cases a) (simp_all add: subscribe_def cancel_handle_def)

lemma apply_op_delivered: "delivered (apply_op a em) = delivered em"
  by (cases a) (simp_all add: subscribe_def cancel_handle_def)

lemma apply_op_well_formed: "well_formed em \<Longrightarrow> well_formed (apply_op a em)"
  by (cases a) (simp_all add: well_formed_subscribe well_formed_cancel)

lemma apply_ops_published: "published (fold apply_op os em) = published em"
  by (induction os arbitrary: em) (simp_all add: apply_op_published)

lemma apply_ops_delivered: "delivered (fold apply_op os em) = delivered em"
  by (induction os arbitrary: em) (simp_all add: apply_op_delivered)

lemma apply_ops_well_formed: "well_formed em \<Longrightarrow> well_formed (fold apply_op os em)"
  by (induction os arbitrary: em) (simp_all add: apply_op_well_formed)

lemma call_listener_published: "published (call_listener beh l event em) = published em"
  by (simp add: call_listener_def Let_def apply_ops_published)

lemma call_listener_delivered:
  "delivered (call_listener beh l event em) = delivered em @ [(l, event)]"
  by (simp add: call_listener_def Let_def apply_ops_delivered)

lemma call_listener_well_formed:
  assumes "well_formed em"
  shows "well_formed (call_listener beh l event em)"
proof -
  have "well_formed (em\<lparr> delivered := delivered em @ [(l, event)] \<rparr>)"
    using assms by (simp add: well_formed_def registered_def)
  then have "well_formed (fold apply_op (ops (beh l event)) (em\<lparr> delivered := delivered em @ [(l, event)] \<rparr>))"
    by (rule apply_ops_well_formed)
  then show ?thesis
    by (simp add: call_listener_def Let_def well_formed_def registered_def)
qed

lemma emit_loop_published:
  "emit_loop fuel beh event index em = Some em' \<Longrightarrow> published em' = published em"
proof (induction fuel arbitrary: index em)
  case 0
  then show ?case by (simp split: if_splits)
next
  case (Suc fuel)
  then show ?case
    by (auto simp: call_listener_published split: if_splits option.splits)
qed

lemma emit_loop_delivered:
  "emit_loop fuel beh event index em = Some em' \<Longrightarrow>
     \<exists>ls. delivered em' = delivered em @ map (\<lambda>l. (l, event)) ls"
proof (induction fuel arbitrary: index em)
  case 0
  then have "em' = em" by (simp split: if_splits)
  then have "delivered em' = delivered em @ map (\<lambda>l. (l, event)) []" by simp
  then show ?case by blast
next
  case (Suc fuel)
  show ?case
  proof (cases "index < length (listeners em)")
    case False
    with Suc.prems have "delivered em' = delivered em @ map (\<lambda>l. (l, event)) []" by simp
    then show ?thesis by blast
  next
    case True
    show ?thesis
    proof (cases "listeners em ! index")
      case None
      with True Suc.prems have "emit_loop fuel beh event (Suc index) em = Some em'" by simp
      then show ?thesis by (rule Suc.IH)
    next
      case (Some l)
      with True Suc.prems have
        "emit_loop fuel beh event (Suc index) (call_listener beh l event em) = Some em'" by simp
      from Suc.IH[OF this] obtain ls where
        "delivered em' = delivered (call_listener beh l event em) @ map (\<lambda>l. (l, event)) ls"
        by blast
      then have "delivered em' = delivered em @ map (\<lambda>l. (l, event)) (l # ls)"
        by (simp add: call_listener_delivered)
      then show ?thesis by blast
    qed
  qed
qed

lemma emit_loop_well_formed:
  "emit_loop fuel beh event index em = Some em' \<Longrightarrow> well_formed em \<Longrightarrow> well_formed em'"
proof (induction fuel arbitrary: index em)
  case 0
  then show ?case by (simp split: if_splits)
next
  case (Suc fuel)
  then show ?case
    by (auto simp: call_listener_well_formed split: if_splits option.splits)
qed

lemma emit_published:
  "emit fuel beh event em = Some em' \<Longrightarrow> published em' = published em @ [event]"
  unfolding emit_def by (drule emit_loop_published) simp

lemma emit_well_formed:
  "emit fuel beh event em = Some em' \<Longrightarrow> well_formed em \<Longrightarrow> well_formed em'"
  unfolding emit_def
  by (erule emit_loop_well_formed) (simp add: well_formed_def registered_def)

lemma emit_all_published:
  "emit_all fuel beh events em = Some em' \<Longrightarrow> published em' = published em @ events"
proof (induction events arbitrary: em)
  case Nil
  then show ?case by simp
next
  case (Cons event events)
  from Cons.prems obtain em1 where 1: "emit fuel beh event em = Some em1"
    and 2: "emit_all fuel beh events em1 = Some em'"
    by (auto split: option.splits)
  from Cons.IH[OF 2] emit_published[OF 1] show ?case by simp
qed

lemma emit_all_quiet:
  assumes "quiet beh" and "length (listeners em) \<le> fuel"
  shows "emit_all fuel beh events em =
     Some (em\<lparr> published := published em @ events,
               delivered := delivered em @ concat (map (\<lambda>event. map (\<lambda>l. (l, event)) (registered em)) events),
               logged := logged em + sum_list (map (\<lambda>event. throwing beh event (registered em)) events) \<rparr>)"
  using assms(2)
proof (induction events arbitrary: em)
  case Nil
  then show ?case by simp
next
  case (Cons event events)
  let ?em1 = "em\<lparr> published := published em @ [event],
               delivered := delivered em @ map (\<lambda>l. (l, event)) (registered em),
               logged := logged em + throwing beh event (registered em) \<rparr>"
  have 1: "emit fuel beh event em = Some ?em1"
    by (rule emit_quiet[OF assms(1) Cons.prems])
  have len: "length (listeners ?em1) \<le> fuel" using Cons.prems by simp
  have reg: "registered ?em1 = registered em" by (simp add: registered_def)
  show ?case
    by (simp add: 1 Cons.IH[OF len] reg)
qed

section \<open>Orchestrator: properties\<close>

lemma processBlock_try_rejects:
  assumes "processBlock_try env bn logs ix = Some (Inl e, ix')"
  shows "eventEmitter ix' = eventEmitter ix"
  using assms
  by (auto simp: processBlock_try_def Let_def split: prod.splits sum.splits option.splits)

lemma processBlock_rejects:
  assumes "processBlock env bn logs ix = Some (Inl e, ix')"
  shows "eventEmitter ix' = eventEmitter ix"
proof -
  from assms obtain ix1 where 1: "processBlock_try env bn logs ix = Some (Inl e, ix1)"
    and 2: "ix' = ix1\<lparr> state := (state ix1)\<lparr> state_errorCount := Suc (state_errorCount (state ix1)) \<rparr> \<rparr>"
    by (auto simp: processBlock_def split: option.splits prod.splits sum.splits)
  from processBlock_try_rejects[OF 1] 2 show ?thesis by simp
qed

lemma processBlock_save_rejected:
  assumes "getBlock (env_client env) bn (chain ix) = (Inr block, w1)"
    and "saveBlockEvents (env_prisma env) bn (or_number block 0 * 1000)
           (decoded_block env block logs) (storage ix) = (Inl e, st1)"
  shows "\<exists>ix'. processBlock env bn logs ix = Some (Inl e, ix') \<and>
           eventEmitter ix' = eventEmitter ix \<and> storage ix' = st1"
  using assms
  by (simp add: processBlock_def processBlock_try_def Let_def decoded_block_def)

lemma processBlock_save_resolved:
  assumes "getBlock (env_client env) bn (chain ix) = (Inr block, w1)"
    and "saveBlockEvents (env_prisma env) bn (or_number block 0 * 1000)
           (decoded_block env block logs) (storage ix) = (Inr u, st1)"
    and "processBlock env bn logs ix = Some (r, ix')"
  shows "r = Inr () \<and> storage ix' = st1 \<and>
         published (eventEmitter ix') = published (eventEmitter ix) @ decoded_block env block logs"
proof -
  from assms obtain em1 where
    em: "emit_all (env_fuel env) (env_listeners env) (decoded_block env block logs) (eventEmitter ix) = Some em1"
    and r: "r = Inr ()" and ix': "storage ix' = st1" "eventEmitter ix' = em1"
    by (auto simp: processBlock_def processBlock_try_def Let_def decoded_block_def
        split: option.splits)
  from emit_all_published[OF em] r ix' show ?thesis by simp
qed

lemma processBlock_resolves:
  assumes "processBlock env bn logs ix = Some (Inr u, ix')"
  shows "\<exists>block w1. getBlock (env_client env) bn (chain ix) = (Inr block, w1) \<and>
           saveBlockEvents (env_prisma env) bn (or_number block 0 * 1000)
             (decoded_block env block logs) (storage ix) = (Inr (), storage ix')"
  using assms
  by (auto simp: processBlock_def processBlock_try_def Let_def decoded_block_def
      split: option.splits prod.splits sum.splits)

lemma processBlock_quiet:
  assumes "getBlock (env_client env) bn (chain ix) = (Inr block, w1)"
    and "saveBlockEvents (env_prisma env) bn (or_number block 0 * 1000)
           (decoded_block env block logs) (storage ix) = (Inr u, st1)"
    and "quiet (env_listeners env)" and "length (listeners (eventEmitter ix)) \<le> env_fuel env"
  shows "\<exists>ix'. processBlock env bn logs ix = Some (Inr (), ix') \<and>
           lastBlockNumber (state ix') = bn \<and>
           delivered (eventEmitter ix') = delivered (eventEmitter ix) @
             concat (map (\<lambda>event. map (\<lambda>l. (l, event)) (registered (eventEmitter ix)))
               (decoded_block env block logs))"
  using assms(1,2) emit_all_quiet[OF assms(3,4), of "decoded_block env block logs"]
  by (simp add: processBlock_def processBlock_try_def Let_def decoded_block_def)


text \<open>
  Claim C1. A call of \<open>processBlock\<close> that rejects has published nothing: the emitter is
  as it was. A call that resolves has first fetched the block header and had
  \<open>saveBlockEvents\<close> resolve on the decoded events, and has then given exactly these
  events to \<open>emit\<close>, one call for each log, in the order of the logs. When
  \<open>saveBlockEvents\<close> rejects, \<open>processBlock\<close> rejects with the same error and no event of
  the block is published. When it resolves and no listener touches the emitter during a
  delivery, \<open>processBlock\<close> resolves, and the listeners were called event by event, in the
  order of the logs.
\<close>

theorem processBlock_publishes_after_save:
  "(processBlock env bn logs ix = Some (Inl e, ix') \<longrightarrow> eventEmitter ix' = eventEmitter ix) \<and>
   (processBlock env bn logs ix = Some (Inr u, ix') \<longrightarrow>
      (\<exists>block w1. getBlock (env_client env) bn (chain ix) = (Inr block, w1) \<and>
         saveBlockEvents (env_prisma env) bn (or_number block 0 * 1000)
           (decoded_block env block logs) (storage ix) = (Inr (), storage ix') \<and>
         published (eventEmitter ix') = published (eventEmitter ix) @ decoded_block env block logs)) \<and>
   (getBlock (env_client env) bn (chain ix) = (Inr block, w1) \<longrightarrow>
      (case saveBlockEvents (env_prisma env) bn (or_number block 0 * 1000)
              (decoded_block env block logs) (storage ix) of
         (Inl e1, st1) \<Rightarrow>
           (\<exists>ix1. processBlock env bn logs ix = Some (Inl e1, ix1) \<and>
              eventEmitter ix1 = eventEmitter ix \<and> storage ix1 = st1)
       | (Inr u1, st1) \<Rightarrow>
           (quiet (env_listeners env) \<and> length (listeners (eventEmitter ix)) \<le> env_fuel env \<longrightarrow>
              (\<exists>ix2. processBlock env bn logs ix = Some (Inr (), ix2) \<and>
                 storage ix2 = st1 \<and>
                 published (eventEmitter ix2) =
                   published (eventEmitter ix) @ decoded_block env block logs \<and>
                 delivered (eventEmitter ix2) = delivered (eventEmitter ix) @
                   concat (map (\<lambda>event. map (\<lambda>l. (l, event)) (registered (eventEmitter ix)))
                     (decoded_block env block logs))))))"
proof (intro conjI impI)
  assume "processBlock env bn logs ix = Some (Inl e, ix')"
  then show "eventEmitter ix' = eventEmitter ix" by (rule processBlock_rejects)
next
  assume ok: "processBlock env bn logs ix = Some (Inr u, ix')"
  from processBlock_resolves[OF ok] obtain block w1 where
    gb: "getBlock (env_client env) bn (chain ix) = (Inr block, w1)"
    and sv: "saveBlockEvents (env_prisma env) bn (or_number block 0 * 1000)
             (decoded_block env block logs) (storage ix) = (Inr (), storage ix')"
    by blast
  from processBlock_save_resolved[OF gb sv ok]
  have "published (eventEmitter ix') = published (eventEmitter ix) @ decoded_block env block logs"
    by simp
  with gb sv show "\<exists>block w1. getBlock (env_client env) bn (chain ix) = (Inr block, w1) \<and>
         saveBlockEvents (env_prisma env) bn (or_number block 0 * 1000)
           (decoded_block env block logs) (storage ix) = (Inr (), storage ix') \<and>
         published (eventEmitter ix') = published (eventEmitter ix) @ decoded_block env block logs"
    by blast
next
  assume gb: "getBlock (env_client env) bn (chain ix) = (Inr block, w1)"
  let ?save = "saveBlockEvents (env_prisma env) bn (or_number block 0 * 1000)
              (decoded_block env block logs) (storage ix)"
  obtain r st1 where sv: "?save = (r, st1)" by (cases ?save)
  show "case ?save of
         (Inl e1, st1) \<Rightarrow>
           (\<exists>ix1. processBlock env bn logs ix = Some (Inl e1, ix1) \<and>
              eventEmitter ix1 = eventEmitter ix \<and> storage ix1 = st1)
       | (Inr u1, st1) \<Rightarrow>
           (quiet (env_listeners env) \<and> length (listeners (eventEmitter ix)) \<le> env_fuel env \<longrightarrow>
              (\<exists>ix2. processBlock env bn logs ix = Some (Inr (), ix2) \<and>
                 storage ix2 = st1 \<and>
                 published (eventEmitter ix2) =
                   published (eventEmitter ix) @ decoded_block env block logs \<and>
                 delivered (eventEmitter ix2) = delivered (eventEmitter ix) @
                   concat (map (\<lambda>event. map (\<lambda>l. (l, event)) (registered (eventEmitter ix)))
                     (decoded_block env block logs))))"
  proof (cases r)
    case (Inl e1)
    with sv processBlock_save_rejected[OF gb, of logs e1 st1] show ?thesis by simp
  next
    case (Inr u1)
    have "\<exists>ix2. processBlock env bn logs ix = Some (Inr (), ix2) \<and>
                 storage ix2 = st1 \<and>
                 published (eventEmitter ix2) =
                   published (eventEmitter ix) @ decoded_block env block logs \<and>
                 delivered (eventEmitter ix2) = delivered (eventEmitter ix) @
                   concat (map (\<lambda>event. map (\<lambda>l. (l, event)) (registered (eventEmitter ix)))
                     (decoded_block env block logs))"
      if q: "quiet (env_listeners env)" "length (listeners (eventEmitter ix)) \<le> env_fuel env"
    proof -
      have sv': "?save = (Inr u1, st1)" using sv Inr by simp
      from processBlock_quiet[OF gb sv' q] obtain ix2 where
        ix2: "processBlock env bn logs ix = Some (Inr (), ix2)"
          "delivered (eventEmitter ix2) = delivered (eventEmitter ix) @
             concat (map (\<lambda>event. map (\<lambda>l. (l, event)) (registered (eventEmitter ix)))
               (decoded_block env block logs))"
        by blast
      from processBlock_save_resolved[OF gb sv' ix2(1)] ix2 show ?thesis by blast
    qed
    then show ?thesis using sv Inr by simp
  qed
qed


lemmas example_defs =
  env_saving_def env_rejecting_def example_client_def example_indexer_def empty_store_def
  two_listeners_def new_emitter_def subscribe_def viem_v3_def example_v3_args_def
  prisma_ok_def prisma_rejects_swap_def beh_quiet_def

lemma example_decoded:
  "decoded_block env_saving (Some 1705320000) [example_log] =
     [Swap \<lparr> s_poolAddress = address example_log,
             s_sender = ''0x3333333333333333333333333333333333333333'',
             s_recipient = ''0x4444444444444444444444444444444444444444'',
             s_amount0In = ''500000'', s_amount1In = ''0'', s_amount0Out = ''0'',
             s_amount1Out = ''1000000'',
             s_transactionHash = ''0xabcdef1234567890abcdef1234567890abcdef1234567890abcdef1234567890'',
             s_logIndex = 0, s_blockNumber = 18000100, s_blockTimestamp = 1705320000000 \<rparr>]"
  "decoded_block env_rejecting (Some 1705320000) [example_log] =
     decoded_block env_saving (Some 1705320000) [example_log]"
  by (simp_all add: decoded_block_def example_defs decode_def tryDecodeERC20Transfer_def
      tryDecodeERC20Transfer_body_def tryDecodeSwapV2_def tryDecodeSwapV2_body_def
      tryDecodeSwapV3_def tryDecodeSwapV3_body_def catch_null_def or_number_def or_string_def
      nullish_def bigint_toString_def digit_char_def example_log_def Let_def)

theorem processBlock_publishes_after_save_witness:
  "getBlock (env_client env_rejecting) 18000100 (chain example_indexer) = (Inr (Some 1705320000), ()) \<and>
   fst (saveBlockEvents (env_prisma env_rejecting) 18000100 (or_number (Some 1705320000) 0 * 1000)
          (decoded_block env_rejecting (Some 1705320000) [example_log]) (storage example_indexer)) =
     Inl db_write_failed \<and>
   map_option (\<lambda>(r, ix'). (r, eventEmitter ix'))
     (processBlock env_rejecting 18000100 [example_log] example_indexer) =
     Some (Inl db_write_failed, two_listeners) \<and>
   getBlock (env_client env_saving) 18000100 (chain example_indexer) = (Inr (Some 1705320000), ()) \<and>
   fst (saveBlockEvents (env_prisma env_saving) 18000100 (or_number (Some 1705320000) 0 * 1000)
          (decoded_block env_saving (Some 1705320000) [example_log]) (storage example_indexer)) =
     Inr () \<and>
   quiet (env_listeners env_saving) \<and>
   length (listeners (eventEmitter example_indexer)) \<le> env_fuel env_saving \<and>
   map_option (\<lambda>(r, ix'). (r, published (eventEmitter ix'), map fst (delivered (eventEmitter ix'))))
     (processBlock env_saving 18000100 [example_log] example_indexer) =
     Some (Inr (), decoded_block env_saving (Some 1705320000) [example_log], [1, 2])"
proof -
  have gb1: "getBlock (env_client env_rejecting) 18000100 (chain example_indexer) = (Inr (Some 1705320000), ())"
    and gb2: "getBlock (env_client env_saving) 18000100 (chain example_indexer) = (Inr (Some 1705320000), ())"
    by (simp_all add: example_defs)
  have sv1: "saveBlockEvents (env_prisma env_rejecting) 18000100 (or_number (Some 1705320000) 0 * 1000)
          (decoded_block env_rejecting (Some 1705320000) [example_log]) (storage example_indexer) =
        (Inl db_write_failed, (storage example_indexer)\<lparr> transactions := 1 \<rparr>)"
    unfolding example_decoded
    by (simp add: saveBlockEvents_def transaction_def tx_create_def saveSwap_def Let_def example_defs)
  have sv2: "fst (saveBlockEvents (env_prisma env_saving) 18000100 (or_number (Some 1705320000) 0 * 1000)
          (decoded_block env_saving (Some 1705320000) [example_log]) (storage example_indexer)) = Inr ()"
    unfolding example_decoded
    by (simp add: saveBlockEvents_def transaction_def tx_create_def saveSwap_def Let_def example_defs)
  have q: "quiet (env_listeners env_saving)"
    "length (listeners (eventEmitter example_indexer)) \<le> env_fuel env_saving"
    by (simp_all add: quiet_def example_defs)
  have em: "eventEmitter example_indexer = two_listeners" "registered two_listeners = [1, 2]"
    "published two_listeners = []" "delivered two_listeners = []"
    by (simp_all add: registered_def example_defs)
  note rejecting = processBlock_publishes_after_save[where env = env_rejecting and bn = 18000100
      and logs = "[example_log]" and ix = example_indexer and block = "Some 1705320000" and ?w1.0 = "()",
      THEN conjunct2, THEN conjunct2, THEN mp, OF gb1, unfolded sv1 prod.case sum.case]
  then have rej: "map_option (\<lambda>(r, ix'). (r, eventEmitter ix'))
     (processBlock env_rejecting 18000100 [example_log] example_indexer) =
     Some (Inl db_write_failed, two_listeners)"
    by (auto simp: em)
  obtain st1 where sv2': "saveBlockEvents (env_prisma env_saving) 18000100 (or_number (Some 1705320000) 0 * 1000)
          (decoded_block env_saving (Some 1705320000) [example_log]) (storage example_indexer) = (Inr (), st1)"
    using sv2 by (metis prod.collapse)
  note saving = processBlock_publishes_after_save[where env = env_saving and bn = 18000100
      and logs = "[example_log]" and ix = example_indexer and block = "Some 1705320000" and ?w1.0 = "()",
      THEN conjunct2, THEN conjunct2, THEN mp, OF gb2, unfolded sv2' prod.case sum.case, THEN mp,
      OF conjI, OF q]
  then obtain ix2 where ix2: "processBlock env_saving 18000100 [example_log] example_indexer = Some (Inr (), ix2)"
    "published (eventEmitter ix2) =
       published (eventEmitter example_indexer) @ decoded_block env_saving (Some 1705320000) [example_log]"
    "delivered (eventEmitter ix2) = delivered (eventEmitter example_indexer) @
       concat (map (\<lambda>event. map (\<lambda>l. (l, event)) (registered (eventEmitter example_indexer)))
         (decoded_block env_saving (Some 1705320000) [example_log]))"
    by blast
  have "map fst (delivered (eventEmitter ix2)) = [1, 2]"
    unfolding ix2(3) example_decoded(1) em by simp
  then have ok: "map_option (\<lambda>(r, ix'). (r, published (eventEmitter ix'), map fst (delivered (eventEmitter ix'))))
     (processBlock env_saving 18000100 [example_log] example_indexer) =
     Some (Inr (), decoded_block env_saving (Some 1705320000) [example_log], [1, 2])"
    using ix2(1,2) by (simp add: em)
  show ?thesis using gb1 gb2 sv1 sv2 q rej ok by simp
qed

section \<open>Poller: properties\<close>

lemma pollBlocks_attempt_cases:
  obtains (height_failed) p w e w1 where
      "s = (p, w)" "getBlockNumber client w = (Inl e, w1)"
      "pollBlocks_attempt client callback s = (Inl e, (p, w1))"
  | (no_new_blocks) p w latest w1 where
      "s = (p, w)" "getBlockNumber client w = (Inr latest, w1)" "latest < currentBlock p"
      "pollBlocks_attempt client callback s = (Inr (), (p, w1))"
  | (batch_failed) p w latest w1 e w2 where
      "s = (p, w)" "getBlockNumber client w = (Inr latest, w1)" "currentBlock p \<le> latest"
      "batch_loop client callback p (currentBlock p) latest w1 = (Inl e, w2)"
      "pollBlocks_attempt client callback s = (Inl e, (p, w2))"
  | (completed) p w latest w1 w2 where
      "s = (p, w)" "getBlockNumber client w = (Inr latest, w1)" "currentBlock p \<le> latest"
      "batch_loop client callback p (currentBlock p) latest w1 = (Inr (), w2)"
      "pollBlocks_attempt client callback s = (Inr (), (p\<lparr> currentBlock := latest + 1 \<rparr>, w2))"
proof -
  obtain p w where s: "s = (p, w)" by (cases s)
  obtain r w1 where g: "getBlockNumber client w = (r, w1)" by (cases "getBlockNumber client w")
  show ?thesis
  proof (cases r)
    case (Inl e)
    have "pollBlocks_attempt client callback s = (Inl e, (p, w1))"
      by (simp add: pollBlocks_attempt_def s g Inl)
    with s g Inl show ?thesis by (intro height_failed) simp_all
  next
    case (Inr latest)
    show ?thesis
    proof (cases "latest < currentBlock p")
      case True
      have "pollBlocks_attempt client callback s = (Inr (), (p, w1))"
        by (simp add: pollBlocks_attempt_def s g Inr True)
      with s g Inr True show ?thesis by (intro no_new_blocks) simp_all
    next
      case False
      obtain r2 w2 where b: "batch_loop client callback p (currentBlock p) latest w1 = (r2, w2)"
        by (cases "batch_loop client callback p (currentBlock p) latest w1")
      show ?thesis
      proof (cases r2)
        case (Inl e)
        have "pollBlocks_attempt client callback s = (Inl e, (p, w2))"
          by (simp only: pollBlocks_attempt_def s g Inr Let_def prod.case sum.case b Inl False if_False)
        with s g Inr False b Inl show ?thesis by (intro batch_failed) simp_all
      next
        case (Inr u)
        have "pollBlocks_attempt client callback s = (Inr (), (p\<lparr> currentBlock := latest + 1 \<rparr>, w2))"
          by (simp only: pollBlocks_attempt_def s g \<open>r = Inr latest\<close> Let_def prod.case sum.case b Inr
              False if_False)
        with s g \<open>r = Inr latest\<close> False b Inr show ?thesis by (intro completed) simp_all
      qed
    qed
  qed
qed

lemma pollBlocks_attempt_rejected:
  assumes "fst (pollBlocks_attempt client callback s) = Inl e"
  shows "fst (snd (pollBlocks_attempt client callback s)) = fst s"
  by (rule pollBlocks_attempt_cases[of s client callback]) (use assms in simp_all)

lemma pollBlocks_attempt_resolved:
  assumes "pollBlocks_attempt client callback s = (Inr u, s')"
  shows "\<exists>latest w1. getBlockNumber client (snd s) = (Inr latest, w1) \<and>
     fst s' = (if latest < currentBlock (fst s) then fst s
               else (fst s)\<lparr> currentBlock := latest + 1 \<rparr>)"
  by (rule pollBlocks_attempt_cases[of s client callback]) (use assms in auto)

lemma pollBlocks_rejected:
  assumes "outcome (pollBlocks client callback s) = Inl e"
  shows "fst (final (pollBlocks client callback s)) = fst s"
  using assms unfolding pollBlocks_def exponentialRetry_def Let_def
  by (rule retry_loop_rejected[where P = "\<lambda>s'. fst s' = fst s", rotated 2])
     (simp_all add: pollBlocks_attempt_rejected)

lemma pollBlocks_resolved:
  assumes "outcome (pollBlocks client callback s) = Inr u"
  shows "\<exists>w0 latest w1. getBlockNumber client w0 = (Inr latest, w1) \<and>
     fst (final (pollBlocks client callback s)) =
       (if latest < currentBlock (fst s) then fst s else (fst s)\<lparr> currentBlock := latest + 1 \<rparr>)"
proof -
  have "\<exists>s0. fst s0 = fst s \<and>
      pollBlocks_attempt client callback s0 = (Inr u, final (pollBlocks client callback s))"
    using assms unfolding pollBlocks_def exponentialRetry_def Let_def
    by (rule retry_loop_resolved[where P = "\<lambda>s'. fst s' = fst s", rotated 2])
       (simp_all add: pollBlocks_attempt_rejected)
  then obtain s0 where s0: "fst s0 = fst s"
    "pollBlocks_attempt client callback s0 = (Inr u, final (pollBlocks client callback s))"
    by blast
  from pollBlocks_attempt_resolved[OF s0(2)] show ?thesis unfolding s0(1) by blast
qed

lemma pollBlocks_keeps:
  "isRunning (fst (final (pollBlocks client callback s))) = isRunning (fst s) \<and>
   errorCount (fst (final (pollBlocks client callback s))) = errorCount (fst s) \<and>
   pollInterval (fst (final (pollBlocks client callback s))) = pollInterval (fst s) \<and>
   currentBlock (fst s) \<le> currentBlock (fst (final (pollBlocks client callback s)))"
proof (cases "outcome (pollBlocks client callback s)")
  case (Inl e)
  then show ?thesis by (simp add: pollBlocks_rejected)
next
  case (Inr u)
  from pollBlocks_resolved[OF Inr] show ?thesis by (auto split: if_splits)
qed

lemma start_pass_failed:
  assumes "outcome (pollBlocks client callback s) = Inl e"
  shows "\<exists>s1. start_pass client callback sleep s =
            (if errorCount (fst s) < 10 then None else Some e, s1) \<and>
          errorCount (fst s1) = Suc (errorCount (fst s)) \<and>
          currentBlock (fst s1) = currentBlock (fst s) \<and>
          (if errorCount (fst s) < 10
           then isRunning (fst s1) =
                  (isRunning (fst s) \<and> \<not> fst (sleep (pollInterval (fst s)) (snd (final (pollBlocks client callback s)))))
           else \<not> isRunning (fst s1))"
  using assms pollBlocks_keeps[of client callback s] pollBlocks_rejected[OF assms]
  by (auto simp: start_pass_def Let_def stop_def split: prod.splits)

lemma start_pass_resolved:
  assumes "outcome (pollBlocks client callback s) = Inr u"
  shows "\<exists>s1. start_pass client callback sleep s = (None, s1) \<and>
          errorCount (fst s1) = 0 \<and>
          currentBlock (fst s1) = currentBlock (fst (final (pollBlocks client callback s))) \<and>
          isRunning (fst s1) =
            (isRunning (fst s) \<and> \<not> fst (sleep (pollInterval (fst s)) (snd (final (pollBlocks client callback s)))))"
  using assms pollBlocks_keeps[of client callback s]
  by (auto simp: start_pass_def Let_def stop_def split: prod.splits)

lemma start_pass_monotone:
  "currentBlock (fst s) \<le> currentBlock (fst (snd (start_pass client callback sleep s)))"
proof (cases "outcome (pollBlocks client callback s)")
  case (Inl e)
  from start_pass_failed[OF Inl, of sleep] show ?thesis by auto
next
  case (Inr u)
  from start_pass_resolved[OF Inr, of sleep] pollBlocks_keeps[of client callback s]
  show ?thesis by auto
qed

lemma start_loop_monotone:
  "currentBlock (fst s) \<le> currentBlock (fst (snd (start_loop fuel client callback sleep s)))"
proof (induction fuel arbitrary: s)
  case 0
  then show ?case by simp
next
  case (Suc fuel)
  obtain r s1 where pass: "start_pass client callback sleep s = (r, s1)"
    by (cases "start_pass client callback sleep s")
  have 1: "currentBlock (fst s) \<le> currentBlock (fst s1)"
    using start_pass_monotone[of s client callback sleep] pass by simp
  have 2: "currentBlock (fst s1) \<le> currentBlock (fst (snd (start_loop fuel client callback sleep s1)))"
    by (rule Suc.IH)
  show ?case using 1 2 pass by (cases r) auto
qed

lemma start_loop_polling:
  assumes "cycles_fail client callback" and "never_stops sleep"
    and "isRunning (fst s)" and "errorCount (fst s) + fuel \<le> 10"
  shows "\<exists>s'. start_loop fuel client callback sleep s = (Polling, s') \<and> isRunning (fst s') \<and>
           errorCount (fst s') = errorCount (fst s) + fuel"
  using assms(3,4)
proof (induction fuel arbitrary: s)
  case 0
  then show ?case by simp
next
  case (Suc fuel)
  from assms(1) obtain e where e: "outcome (pollBlocks client callback s) = Inl e"
    unfolding cycles_fail_def by (metis isl_def)
  have lt: "errorCount (fst s) < 10" using Suc.prems(2) by simp
  from start_pass_failed[OF e, of sleep] lt assms(2) Suc.prems(1)
  obtain s1 where s1: "start_pass client callback sleep s = (None, s1)"
    "errorCount (fst s1) = Suc (errorCount (fst s))" "isRunning (fst s1)"
    by (auto simp: never_stops_def)
  have "errorCount (fst s1) + fuel \<le> 10" using s1(2) Suc.prems(2) by simp
  from Suc.IH[OF s1(3) this] s1 Suc.prems(1) show ?case by simp
qed

lemma start_loop_add:
  assumes "start_loop a client callback sleep s = (Polling, s')"
  shows "start_loop (a + b) client callback sleep s = start_loop b client callback sleep s'"
  using assms
proof (induction a arbitrary: s)
  case 0
  then have "s' = s" "isRunning (fst s)" by (auto split: if_splits)
  then show ?case by simp
next
  case (Suc a)
  from Suc.prems have run: "isRunning (fst s)" by (auto split: if_splits)
  obtain r s1 where pass: "start_pass client callback sleep s = (r, s1)"
    by (cases "start_pass client callback sleep s")
  show ?case
  proof (cases r)
    case None
    with Suc.prems run pass have "start_loop a client callback sleep s1 = (Polling, s')" by simp
    from Suc.IH[OF this] run pass None show ?thesis by simp
  next
    case (Some e)
    with Suc.prems run pass show ?thesis by simp
  qed
qed

lemma start_loop_eleventh:
  assumes "isRunning (fst s)" and "errorCount (fst s) = 10"
    and "outcome (pollBlocks client callback s) = Inl e"
  shows "\<exists>s'. start_loop (Suc k) client callback sleep s = (Rejected e, s') \<and>
           \<not> isRunning (fst s') \<and> errorCount (fst s') = 11 \<and>
           currentBlock (fst s') = currentBlock (fst s) \<and>
           start_loop j client callback sleep s' = (Resolved, s')"
proof -
  from start_pass_failed[OF assms(3), of sleep] assms(2)
  obtain s1 where s1: "start_pass client callback sleep s = (Some e, s1)"
    "errorCount (fst s1) = 11" "\<not> isRunning (fst s1)" "currentBlock (fst s1) = currentBlock (fst s)"
    by auto
  have "start_loop j client callback sleep s1 = (Resolved, s1)"
    using s1(3) by (cases j) simp_all
  with s1 assms(1) show ?thesis by simp
qed


text \<open>
  Claim C3, as the code has it. A pass of the loop whose cycle resolves sets the error
  count to zero; a pass whose cycle rejects (the retries are used up) adds one to it. The
  loop goes on while the count is at most 10: the pass that takes the count to 11 or more
  clears \<open>isRunning\<close> and throws the error of that cycle, and no pass follows. So on a chain
  where every cycle fails, starting from a count of zero, the loop is still polling after 10
  failed cycles in a row, and it is the 11th failed cycle that stops it, with that cycle's
  error.
\<close>

theorem start_stops_after_eleven_failures:
  "(isRunning (fst s) \<and> outcome (pollBlocks client callback s) = Inr u \<longrightarrow>
      (\<exists>s1. start_loop (Suc fuel) client callback sleep s = start_loop fuel client callback sleep s1 \<and>
         errorCount (fst s1) = 0)) \<and>
   (isRunning (fst s) \<and> outcome (pollBlocks client callback s) = Inl e \<and> errorCount (fst s) < 10 \<longrightarrow>
      (\<exists>s1. start_loop (Suc fuel) client callback sleep s = start_loop fuel client callback sleep s1 \<and>
         errorCount (fst s1) = errorCount (fst s) + 1)) \<and>
   (isRunning (fst s) \<and> outcome (pollBlocks client callback s) = Inl e \<and> 10 \<le> errorCount (fst s) \<longrightarrow>
      (\<exists>s1. start_loop (Suc fuel) client callback sleep s = (Rejected e, s1) \<and>
         errorCount (fst s1) = errorCount (fst s) + 1 \<and> \<not> isRunning (fst s1) \<and>
         start_loop fuel client callback sleep s1 = (Resolved, s1))) \<and>
   (cycles_fail client callback \<and> never_stops sleep \<and> isRunning (fst s) \<and> errorCount (fst s) = 0 \<longrightarrow>
      (\<exists>s10 e11 s11.
         start_loop 10 client callback sleep s = (Polling, s10) \<and>
         isRunning (fst s10) \<and> errorCount (fst s10) = 10 \<and>
         outcome (pollBlocks client callback s10) = Inl e11 \<and>
         start_loop (11 + fuel) client callback sleep s = (Rejected e11, s11) \<and>
         \<not> isRunning (fst s11) \<and> errorCount (fst s11) = 11 \<and>
         start_loop fuel client callback sleep s11 = (Resolved, s11)))"
proof (intro conjI impI)
  assume a: "isRunning (fst s) \<and> outcome (pollBlocks client callback s) = Inr u"
  then have run: "isRunning (fst s)" and ok: "outcome (pollBlocks client callback s) = Inr u"
    by simp_all
  from start_pass_resolved[OF ok, of sleep] obtain s1 where
    s1: "start_pass client callback sleep s = (None, s1)" "errorCount (fst s1) = 0" by blast
  have "start_loop (Suc fuel) client callback sleep s = start_loop fuel client callback sleep s1"
    using run s1(1) by simp
  with s1(2) show "\<exists>s1. start_loop (Suc fuel) client callback sleep s =
      start_loop fuel client callback sleep s1 \<and> errorCount (fst s1) = 0"
    by blast
next
  assume a: "isRunning (fst s) \<and> outcome (pollBlocks client callback s) = Inl e \<and> errorCount (fst s) < 10"
  then have run: "isRunning (fst s)" and bad: "outcome (pollBlocks client callback s) = Inl e"
    and lt: "errorCount (fst s) < 10" by simp_all
  from start_pass_failed[OF bad, of sleep] lt obtain s1 where
    s1: "start_pass client callback sleep s = (None, s1)" "errorCount (fst s1) = Suc (errorCount (fst s))"
    by auto
  have "start_loop (Suc fuel) client callback sleep s = start_loop fuel client callback sleep s1"
    using run s1(1) by simp
  moreover have "errorCount (fst s1) = errorCount (fst s) + 1" using s1(2) by simp
  ultimately show "\<exists>s1. start_loop (Suc fuel) client callback sleep s =
      start_loop fuel client callback sleep s1 \<and> errorCount (fst s1) = errorCount (fst s) + 1"
    by blast
next
  assume a: "isRunning (fst s) \<and> outcome (pollBlocks client callback s) = Inl e \<and> 10 \<le> errorCount (fst s)"
  then have run: "isRunning (fst s)" and bad: "outcome (pollBlocks client callback s) = Inl e"
    and ge: "10 \<le> errorCount (fst s)" by simp_all
  from start_pass_failed[OF bad, of sleep] ge obtain s1 where
    s1: "start_pass client callback sleep s = (Some e, s1)"
    "errorCount (fst s1) = Suc (errorCount (fst s))" "\<not> isRunning (fst s1)"
    by auto
  have "start_loop fuel client callback sleep s1 = (Resolved, s1)"
    using s1(3) by (cases fuel) simp_all
  moreover have "start_loop (Suc fuel) client callback sleep s = (Rejected e, s1)"
    using run s1(1) by simp
  moreover have "errorCount (fst s1) = errorCount (fst s) + 1" using s1(2) by simp
  ultimately show "\<exists>s1. start_loop (Suc fuel) client callback sleep s = (Rejected e, s1) \<and>
         errorCount (fst s1) = errorCount (fst s) + 1 \<and> \<not> isRunning (fst s1) \<and>
         start_loop fuel client callback sleep s1 = (Resolved, s1)"
    using s1(3) by blast
next
  assume a: "cycles_fail client callback \<and> never_stops sleep \<and> isRunning (fst s) \<and> errorCount (fst s) = 0"
  then have cf: "cycles_fail client callback" and ns: "never_stops sleep"
    and run: "isRunning (fst s)" and zero: "errorCount (fst s) = 0" by simp_all
  have "errorCount (fst s) + 10 \<le> 10" using zero by simp
  from start_loop_polling[OF cf ns run this] zero obtain s10 where
    s10: "start_loop 10 client callback sleep s = (Polling, s10)" "isRunning (fst s10)"
      "errorCount (fst s10) = 10"
    by auto
  from cf obtain e11 where e11: "outcome (pollBlocks client callback s10) = Inl e11"
    unfolding cycles_fail_def by (metis isl_def)
  from start_loop_eleventh[OF s10(2,3) e11, of fuel sleep fuel] obtain s11 where
    s11: "start_loop (Suc fuel) client callback sleep s10 = (Rejected e11, s11)"
      "\<not> isRunning (fst s11)" "errorCount (fst s11) = 11"
      "start_loop fuel client callback sleep s11 = (Resolved, s11)"
    by blast
  have "start_loop (10 + Suc fuel) client callback sleep s = start_loop (Suc fuel) client callback sleep s10"
    using s10(1) by (rule start_loop_add)
  then have "start_loop (11 + fuel) client callback sleep s = (Rejected e11, s11)"
    using s11(1) by simp
  with s10 e11 s11 show "\<exists>s10 e11 s11.
         start_loop 10 client callback sleep s = (Polling, s10) \<and>
         isRunning (fst s10) \<and> errorCount (fst s10) = 10 \<and>
         outcome (pollBlocks client callback s10) = Inl e11 \<and>
         start_loop (11 + fuel) client callback sleep s = (Rejected e11, s11) \<and>
         \<not> isRunning (fst s11) \<and> errorCount (fst s11) = 11 \<and>
         start_loop fuel client callback sleep s11 = (Resolved, s11)"
    by blast
qed


lemma pollBlocks_always_fails:
  assumes "always_fails (pollBlocks_attempt client callback)"
  shows "cycles_fail client callback"
proof -
  have opts: "merge_options DEFAULT_OPTIONS pollBlocks_options =
      \<lparr> r_maxRetries = 3, r_baseDelayMs = 1000, r_maxDelayMs = 30000, r_backoffMultiplier = 2 \<rparr>"
    by (simp add: merge_options_def DEFAULT_OPTIONS_def pollBlocks_options_def no_options_def)
  have "isl (outcome (pollBlocks client callback s))" for s
  proof -
    have "outcome (pollBlocks client callback s) =
        fst (pollBlocks_attempt client callback (after_calls (pollBlocks_attempt client callback) 3 s))"
      unfolding pollBlocks_def exponentialRetry_def Let_def opts
      by (subst retry_loop_always_fails[OF assms, where k = 3]) simp_all
    moreover have "isl (fst (pollBlocks_attempt client callback
        (after_calls (pollBlocks_attempt client callback) 3 s)))"
      using assms unfolding always_fails_def by blast
    ultimately show ?thesis by simp
  qed
  then show ?thesis by (simp add: cycles_fail_def)
qed

lemma rpc_down_fails: "cycles_fail rpc_down idle_callback"
proof (rule pollBlocks_always_fails)
  show "always_fails (pollBlocks_attempt rpc_down idle_callback)"
    by (simp add: always_fails_def pollBlocks_attempt_def rpc_down_def split: prod.splits)
qed

theorem start_stops_after_eleven_failures_witness:
  "cycles_fail rpc_down idle_callback \<and> never_stops (never_stopped :: int \<Rightarrow> nat \<Rightarrow> bool \<times> nat) \<and>
   isRunning (fst ((new_BlockPoller 18000000 12000)\<lparr> isRunning := True \<rparr>, 0::nat)) \<and>
   errorCount (fst ((new_BlockPoller 18000000 12000)\<lparr> isRunning := True \<rparr>, 0::nat)) = 0 \<and>
   (\<exists>s10 e11 s11.
      start_loop 10 rpc_down idle_callback never_stopped
        ((new_BlockPoller 18000000 12000)\<lparr> isRunning := True \<rparr>, 0) = (Polling, s10) \<and>
      errorCount (fst s10) = 10 \<and>
      start_loop 11 rpc_down idle_callback never_stopped
        ((new_BlockPoller 18000000 12000)\<lparr> isRunning := True \<rparr>, 0) = (Rejected e11, s11) \<and>
      errorCount (fst s11) = 11 \<and> \<not> isRunning (fst s11))"
proof -
  let ?s = "((new_BlockPoller 18000000 12000)\<lparr> isRunning := True \<rparr>, 0::nat)"
  have ns: "never_stops (never_stopped :: int \<Rightarrow> nat \<Rightarrow> bool \<times> nat)"
    by (simp add: never_stops_def never_stopped_def)
  have run: "isRunning (fst ?s)" and zero: "errorCount (fst ?s) = 0"
    by (simp_all add: new_BlockPoller_def)
  note t = start_stops_after_eleven_failures[where s = ?s and client = rpc_down
      and callback = idle_callback and sleep = never_stopped and fuel = 0,
      THEN conjunct2, THEN conjunct2, THEN conjunct2, THEN mp]
  have "\<exists>s10 e11 s11.
      start_loop 10 rpc_down idle_callback never_stopped ?s = (Polling, s10) \<and>
      errorCount (fst s10) = 10 \<and>
      start_loop 11 rpc_down idle_callback never_stopped ?s = (Rejected e11, s11) \<and>
      errorCount (fst s11) = 11 \<and> \<not> isRunning (fst s11)"
    using t[OF conjI[OF rpc_down_fails conjI[OF ns conjI[OF run zero]]]] by auto
  then show ?thesis using rpc_down_fails ns run zero by blast
qed

text \<open>
  Where claim C3 fails as it is written: with a chain client whose height query always
  throws, after 10 failed cycles in a row (40 queries) \<open>start\<close> has not thrown and the
  poller is running with an error count of 10; it runs an 11th cycle (queries 41 to 44)
  and throws the error of that one.
\<close>

theorem start_ten_failures_counterexample:
  "start 10 rpc_down idle_callback never_stopped (new_BlockPoller 18000000 12000, 0) =
     (Polling, (\<lparr> currentBlock = 18000000, pollInterval = 12000, isRunning = True, errorCount = 10 \<rparr>, 40)) \<and>
   start 11 rpc_down idle_callback never_stopped (new_BlockPoller 18000000 12000, 0) =
     (Rejected (Thrown 43 ''HttpRequestError'' ''rpc down'' []),
      (\<lparr> currentBlock = 18000000, pollInterval = 12000, isRunning = False, errorCount = 11 \<rparr>, 44))"
  by (simp add: start_def new_BlockPoller_def eval_nat_numeral start_pass_def pollBlocks_def
      exponentialRetry_def merge_options_def DEFAULT_OPTIONS_def pollBlocks_options_def
      no_options_def pollBlocks_attempt_def rpc_down_def never_stopped_def Let_def)


text \<open>
  Claim C4, as the code has it. A cycle reads the height and walks the range from the
  cursor to the height in batches of 100 blocks: a batch from \<open>block\<close> fetches the logs of
  \<open>block\<close> to \<open>min (block + 99) endBlock\<close> and the next batch starts at \<open>block + 100\<close>.
  The recorded position is written once, behind the last batch: a cycle that completes
  leaves it at the height plus one, and an attempt or a cycle that fails in any batch
  leaves it where it was when the cycle began. Within the cycle every callback is handed
  the poller with the position of the start of the cycle.
\<close>

theorem pollBlocks_cursor_after_cycle:
  "(fst (pollBlocks_attempt client callback (p, w)) = Inl e \<longrightarrow>
      getCurrentBlock (fst (snd (pollBlocks_attempt client callback (p, w)))) = getCurrentBlock p) \<and>
   (outcome (pollBlocks client callback (p, w)) = Inl e \<longrightarrow>
      getCurrentBlock (fst (final (pollBlocks client callback (p, w)))) = getCurrentBlock p) \<and>
   (getBlockNumber client w = (Inr latest, w1) \<and> getCurrentBlock p \<le> latest \<longrightarrow>
      (case batch_loop client callback p (currentBlock p) latest w1 of
         (Inl e1, w2) \<Rightarrow> pollBlocks_attempt client callback (p, w) = (Inl e1, (p, w2))
       | (Inr u, w2) \<Rightarrow>
           pollBlocks_attempt client callback (p, w) = (Inr (), (p\<lparr> currentBlock := latest + 1 \<rparr>, w2)) \<and>
           getCurrentBlock (p\<lparr> currentBlock := latest + 1 \<rparr>) = latest + 1)) \<and>
   (block \<le> endBlock \<longrightarrow>
      batch_loop client callback p block endBlock w =
        (case getLogs client block (min (block + 99) endBlock) w of
           (Inl e2, w3) \<Rightarrow> (Inl e2, w3)
         | (Inr logs, w3) \<Rightarrow>
             (case block_loop callback p logs (new_Set (map blockNumber logs)) w3 of
                (Inl e3, w4) \<Rightarrow> (Inl e3, w4)
              | (Inr u, w4) \<Rightarrow> batch_loop client callback p (block + 100) endBlock w4)))"
proof (intro conjI impI)
  assume "fst (pollBlocks_attempt client callback (p, w)) = Inl e"
  from pollBlocks_attempt_rejected[OF this]
  show "getCurrentBlock (fst (snd (pollBlocks_attempt client callback (p, w)))) = getCurrentBlock p"
    by simp
next
  assume "outcome (pollBlocks client callback (p, w)) = Inl e"
  from pollBlocks_rejected[OF this]
  show "getCurrentBlock (fst (final (pollBlocks client callback (p, w)))) = getCurrentBlock p"
    by simp
next
  assume a: "getBlockNumber client w = (Inr latest, w1) \<and> getCurrentBlock p \<le> latest"
  obtain r2 w2 where b: "batch_loop client callback p (currentBlock p) latest w1 = (r2, w2)"
    by (cases "batch_loop client callback p (currentBlock p) latest w1")
  show "case batch_loop client callback p (currentBlock p) latest w1 of
         (Inl e1, w2) \<Rightarrow> pollBlocks_attempt client callback (p, w) = (Inl e1, (p, w2))
       | (Inr u, w2) \<Rightarrow>
           pollBlocks_attempt client callback (p, w) = (Inr (), (p\<lparr> currentBlock := latest + 1 \<rparr>, w2)) \<and>
           getCurrentBlock (p\<lparr> currentBlock := latest + 1 \<rparr>) = latest + 1"
    using a b by (cases r2) (simp_all add: pollBlocks_attempt_def getCurrentBlock_def)
next
  assume le: "block \<le> endBlock"
  show "batch_loop client callback p block endBlock w =
        (case getLogs client block (min (block + 99) endBlock) w of
           (Inl e2, w3) \<Rightarrow> (Inl e2, w3)
         | (Inr logs, w3) \<Rightarrow>
             (case block_loop callback p logs (new_Set (map blockNumber logs)) w3 of
                (Inl e3, w4) \<Rightarrow> (Inl e3, w4)
              | (Inr u, w4) \<Rightarrow> batch_loop client callback p (block + 100) endBlock w4))"
    unfolding batch_loop.simps[of client callback p block endBlock w] BATCH_SIZE_def Let_def
    using le by (simp add: min_def add.commute)
qed

lemma batch_loop_chain_150:
  "batch_loop chain_150 probe p 0 150 [] = (Inr (), [(Some 50, getCurrentBlock p), (Some 120, getCurrentBlock p)])"
  by (simp add: batch_loop.simps BATCH_SIZE_def chain_150_def logs_between_def log_at_def
      example_log_def new_Set_def probe_def Let_def)

theorem pollBlocks_cursor_after_cycle_witness:
  "getBlockNumber chain_150 [] = (Inr 150, []) \<and>
   getCurrentBlock (new_BlockPoller 0 12000) \<le> 150 \<and>
   pollBlocks_attempt chain_150 probe (new_BlockPoller 0 12000, []) =
     (Inr (), ((new_BlockPoller 0 12000)\<lparr> currentBlock := 151 \<rparr>, [(Some 50, 0), (Some 120, 0)]))"
proof -
  have g: "getBlockNumber chain_150 [] = (Inr 150, [])" by (simp add: chain_150_def)
  have c: "getCurrentBlock (new_BlockPoller 0 12000) \<le> 150"
    "getCurrentBlock (new_BlockPoller 0 12000) = 0" "currentBlock (new_BlockPoller 0 12000) = 0"
    by (simp_all add: getCurrentBlock_def new_BlockPoller_def)
  note t = pollBlocks_cursor_after_cycle[where client = chain_150 and callback = probe
      and p = "new_BlockPoller 0 12000" and w = "[]" and latest = 150 and ?w1.0 = "[]",
      THEN conjunct2, THEN conjunct2, THEN conjunct1, THEN mp, OF conjI, OF g c(1),
      unfolded c(3) batch_loop_chain_150 prod.case sum.case c(2)]
  then show ?thesis using g c(1) by simp
qed

text \<open>
  A chain of height 150, cursor at 0: the batches are blocks 0 to 99 and 100 to 150.
\<close>

lemmas chain_150_defs =
  pollBlocks_def exponentialRetry_def merge_options_def DEFAULT_OPTIONS_def
  pollBlocks_options_def no_options_def pollBlocks_attempt_def batch_loop.simps BATCH_SIZE_def
  chain_150_def chain_150_broken_def logs_between_def log_at_def example_log_def new_Set_def
  probe_def getCurrentBlock_def new_BlockPoller_def Let_def

lemma attempt_chain_150:
  "pollBlocks_attempt chain_150 probe (new_BlockPoller 0 12000, []) =
     (Inr (), (\<lparr> currentBlock = 151, pollInterval = 12000, isRunning = False, errorCount = 0 \<rparr>,
               [(Some 50, 0), (Some 120, 0)]))"
  by (simp add: chain_150_defs)

lemma attempt_chain_150_ahead:
  "pollBlocks_attempt chain_150 probe (new_BlockPoller 200 12000, []) =
     (Inr (), (new_BlockPoller 200 12000, []))"
  by (simp add: chain_150_defs)

lemma pollBlocks_chain_150:
  "pollBlocks chain_150 probe (new_BlockPoller 0 12000, []) =
     \<lparr> outcome = Inr (),
       final = (\<lparr> currentBlock = 151, pollInterval = 12000, isRunning = False, errorCount = 0 \<rparr>,
                [(Some 50, 0), (Some 120, 0)]),
       calls = 1, slept = [] \<rparr>"
  by (simp add: chain_150_defs)

lemma pollBlocks_chain_150_broken:
  "pollBlocks chain_150_broken probe (new_BlockPoller 0 12000, []) =
     \<lparr> outcome = Inl (Thrown 5 ''HttpRequestError'' ''rpc down'' []),
       final = (\<lparr> currentBlock = 0, pollInterval = 12000, isRunning = False, errorCount = 0 \<rparr>,
                [(Some 50, 0), (Some 50, 0), (Some 50, 0), (Some 50, 0)]),
       calls = 4, slept = [1000, 2000, 4000] \<rparr>"
  by (simp add: chain_150_defs)

text \<open>
  Where claim C4 fails as it is written: the callback for block 120, in the second batch,
  runs after the batch of blocks 0 to 99 is complete and reads a position of 0, not 100.
  And when the fetch of the second batch throws, the position after the attempt, and after
  all four attempts of the cycle, is 0: block 50 of the first batch has been handed to the
  callback four times.
\<close>

theorem pollBlocks_cursor_counterexample:
  "pollBlocks_attempt chain_150 probe (new_BlockPoller 0 12000, []) =
     (Inr (), (\<lparr> currentBlock = 151, pollInterval = 12000, isRunning = False, errorCount = 0 \<rparr>,
               [(Some 50, 0), (Some 120, 0)])) \<and>
   outcome (pollBlocks chain_150_broken probe (new_BlockPoller 0 12000, [])) =
     Inl (Thrown 5 ''HttpRequestError'' ''rpc down'' []) \<and>
   final (pollBlocks chain_150_broken probe (new_BlockPoller 0 12000, [])) =
     (\<lparr> currentBlock = 0, pollInterval = 12000, isRunning = False, errorCount = 0 \<rparr>,
      [(Some 50, 0), (Some 50, 0), (Some 50, 0), (Some 50, 0)])"
  by (simp add: attempt_chain_150 pollBlocks_chain_150_broken)

text \<open>
  Claim C9, as the code has it. The position that \<open>getCurrentBlock\<close> reports never
  decreases, over one cycle and over any number of passes of the loop. An attempt that
  resolves after reading the height \<open>latest\<close> leaves the position at \<open>latest + 1\<close>, the
  next block to scan, when \<open>latest\<close> is not below the position, and leaves it unchanged
  when \<open>latest\<close> is below it; a cycle that resolves ends with such an attempt.
\<close>

theorem cursor_never_decreases:
  "getCurrentBlock (fst s) \<le> getCurrentBlock (fst (final (pollBlocks client callback s))) \<and>
   getCurrentBlock (fst s) \<le> getCurrentBlock (fst (snd (start_loop fuel client callback sleep s))) \<and>
   (pollBlocks_attempt client callback (p, w) = (Inr u, s') \<and>
    getBlockNumber client w = (Inr latest, w1) \<longrightarrow>
      getCurrentBlock (fst s') =
        (if latest < getCurrentBlock p then getCurrentBlock p else latest + 1)) \<and>
   (outcome (pollBlocks client callback s) = Inr u \<longrightarrow>
      (\<exists>w0 latest w1. getBlockNumber client w0 = (Inr latest, w1) \<and>
         getCurrentBlock (fst (final (pollBlocks client callback s))) =
           (if latest < getCurrentBlock (fst s) then getCurrentBlock (fst s) else latest + 1)))"
proof (intro conjI impI)
  show "getCurrentBlock (fst s) \<le> getCurrentBlock (fst (final (pollBlocks client callback s)))"
    using pollBlocks_keeps[of client callback s] by (simp add: getCurrentBlock_def)
next
  show "getCurrentBlock (fst s) \<le> getCurrentBlock (fst (snd (start_loop fuel client callback sleep s)))"
    using start_loop_monotone[of s fuel client callback sleep] by (simp add: getCurrentBlock_def)
next
  assume a: "pollBlocks_attempt client callback (p, w) = (Inr u, s') \<and>
    getBlockNumber client w = (Inr latest, w1)"
  from pollBlocks_attempt_resolved[of client callback "(p, w)" u s'] a
  show "getCurrentBlock (fst s') = (if latest < getCurrentBlock p then getCurrentBlock p else latest + 1)"
    by (auto simp: getCurrentBlock_def)
next
  assume "outcome (pollBlocks client callback s) = Inr u"
  from pollBlocks_resolved[OF this] obtain w0 latest w1 where
    g: "getBlockNumber client w0 = (Inr latest, w1)"
    and f: "fst (final (pollBlocks client callback s)) =
       (if latest < currentBlock (fst s) then fst s else (fst s)\<lparr> currentBlock := latest + 1 \<rparr>)"
    by blast
  have "getCurrentBlock (fst (final (pollBlocks client callback s))) =
           (if latest < getCurrentBlock (fst s) then getCurrentBlock (fst s) else latest + 1)"
    unfolding f by (simp add: getCurrentBlock_def)
  with g show "\<exists>w0 latest w1. getBlockNumber client w0 = (Inr latest, w1) \<and>
         getCurrentBlock (fst (final (pollBlocks client callback s))) =
           (if latest < getCurrentBlock (fst s) then getCurrentBlock (fst s) else latest + 1)"
    by blast
qed


theorem cursor_never_decreases_witness:
  "pollBlocks_attempt chain_150 probe (new_BlockPoller 0 12000, []) =
     (Inr (), (\<lparr> currentBlock = 151, pollInterval = 12000, isRunning = False, errorCount = 0 \<rparr>,
               [(Some 50, 0), (Some 120, 0)])) \<and>
   getBlockNumber chain_150 [] = (Inr 150, []) \<and>
   getCurrentBlock (new_BlockPoller 0 12000) = 0 \<and>
   getCurrentBlock \<lparr> currentBlock = 151, pollInterval = 12000, isRunning = False, errorCount = 0 \<rparr> = 150 + 1 \<and>
   pollBlocks_attempt chain_150 probe (new_BlockPoller 200 12000, []) =
     (Inr (), (new_BlockPoller 200 12000, [])) \<and>
   getCurrentBlock (new_BlockPoller 200 12000) = 200 \<and>
   outcome (pollBlocks chain_150 probe (new_BlockPoller 0 12000, [])) = Inr ()"
proof -
  have g: "getBlockNumber chain_150 [] = (Inr 150, [])" by (simp add: chain_150_def)
  have c: "getCurrentBlock (new_BlockPoller 0 12000) = 0" "getCurrentBlock (new_BlockPoller 200 12000) = 200"
    by (simp_all add: getCurrentBlock_def new_BlockPoller_def)
  note t = cursor_never_decreases[where client = chain_150 and callback = probe
      and p = "new_BlockPoller 0 12000" and w = "[]" and latest = 150 and ?w1.0 = "[]",
      THEN conjunct2, THEN conjunct2, THEN conjunct1, THEN mp, OF conjI, OF attempt_chain_150 g]
  have "getCurrentBlock \<lparr> currentBlock = 151, pollInterval = 12000, isRunning = False, errorCount = 0 \<rparr> = 150 + 1"
    using t by (simp add: c)
  then show ?thesis
    using g c attempt_chain_150 attempt_chain_150_ahead by (simp add: pollBlocks_chain_150)
qed

text \<open>
  Where claim C9 fails as it is written: the cycle observes the height 150 and resolves,
  and the position is 151 afterwards, not 150.
\<close>

theorem cursor_equals_latest_counterexample:
  "getBlockNumber chain_150 [] = (Inr 150, []) \<and>
   outcome (pollBlocks chain_150 probe (new_BlockPoller 0 12000, [])) = Inr () \<and>
   getCurrentBlock (fst (final (pollBlocks chain_150 probe (new_BlockPoller 0 12000, [])))) = 151"
  by (simp add: pollBlocks_chain_150) (simp add: chain_150_def getCurrentBlock_def)

end
